theory Spec2Isabelle
  imports Complex_Main
begin

section \<open>Numbers and arrays of the source language\<close>

text \<open>
  The program is TypeScript; every quantity it computes with is a \<^verbatim>\<open>number\<close>, an
  IEEE 754 binary64 value. A finite number is modelled by the real it denotes; the two
  zeros are one value (they compare equal, and the only divisors of the program are an
  array length and the literal 2). \<open>PosInf\<close>, \<open>NegInf\<close> and \<open>NaN\<close> are the
  other values.
\<close>

datatype number = Fin real | PosInf | NegInf | NaN

subsection \<open>Rounding to the nearest double\<close>

text \<open>\<open>pow2 k\<close> is \<open>2\<close> to the integer power \<open>k\<close>.\<close>

definition pow2 :: "int \<Rightarrow> real" where
  "pow2 k = (if 0 \<le> k then 2 ^ nat k else 1 / 2 ^ nat (- k))"

text \<open>
  The largest \<open>e\<close> between \<open>lo\<close> and \<open>hi\<close> with \<open>2\<^sup>e \<le> a\<close>, or \<open>lo\<close> when there
  is none, found by bisection.
\<close>

function exponent_search :: "real \<Rightarrow> int \<Rightarrow> int \<Rightarrow> int" where
  "exponent_search a lo hi =
     (if hi \<le> lo then lo
      else (let mid = (lo + hi + 1) div 2
            in if pow2 mid \<le> a then exponent_search a mid hi
               else exponent_search a lo (mid - 1)))"
  by pat_completeness auto
termination
  by (relation "measure (\<lambda>(a, lo, hi). nat (hi - lo))") auto

text \<open>
  The exponent of the binade of a magnitude \<open>a\<close>: that of \<open>a\<close> itself between the
  smallest normal exponent \<open>-1022\<close> (below it the subnormal numbers share the spacing of
  the first binade) and the largest, 1023.
\<close>

definition binade :: "real \<Rightarrow> int" where
  "binade a = exponent_search a (- 1022) 1023"

text \<open>The nearest integer, a tie going to the even one.\<close>

definition round_half_even :: "real \<Rightarrow> int" where
  "round_half_even q =
     (let f = \<lfloor>q\<rfloor>
      in if q - of_int f < 1 / 2 then f
         else if 1 / 2 < q - of_int f then f + 1
         else if even f then f else f + 1)"

text \<open>
  Round to nearest, ties to even: the doubles of the binade of \<open>x\<close> are the multiples of
  \<open>u = 2\<^sup>e\<^sup>-\<^sup>5\<^sup>2\<close>; \<open>x\<close> goes to the nearest multiple, and to an infinity when that
  multiple reaches \<open>2\<^sup>1\<^sup>0\<^sup>2\<^sup>4\<close>.
\<close>

definition round64 :: "real \<Rightarrow> number" where
  "round64 x =
     (let u = pow2 (binade \<bar>x\<bar> - 52);
          r = of_int (round_half_even (x / u)) * u
      in if 2 ^ 1024 \<le> \<bar>r\<bar> then (if 0 < x then PosInf else NegInf) else Fin r)"

text \<open>A finite number is a double when rounding leaves it as it is.\<close>

fun is_double :: "number \<Rightarrow> bool" where
  "is_double (Fin x) = (round64 x = Fin x)"
| "is_double _ = True"

subsection \<open>The operators\<close>

text \<open>
  Each operator computes the exact result of finite operands and rounds it; the other
  cases are those of IEEE 754.
\<close>

fun nadd :: "number \<Rightarrow> number \<Rightarrow> number" where
  "nadd (Fin x) (Fin y) = round64 (x + y)"
| "nadd NaN _ = NaN"
| "nadd _ NaN = NaN"
| "nadd PosInf NegInf = NaN"
| "nadd NegInf PosInf = NaN"
| "nadd PosInf _ = PosInf"
| "nadd _ PosInf = PosInf"
| "nadd NegInf _ = NegInf"
| "nadd _ NegInf = NegInf"

fun nsub :: "number \<Rightarrow> number \<Rightarrow> number" where
  "nsub (Fin x) (Fin y) = round64 (x - y)"
| "nsub NaN _ = NaN"
| "nsub _ NaN = NaN"
| "nsub PosInf PosInf = NaN"
| "nsub NegInf NegInf = NaN"
| "nsub PosInf _ = PosInf"
| "nsub _ NegInf = PosInf"
| "nsub NegInf _ = NegInf"
| "nsub _ PosInf = NegInf"

fun nmul :: "number \<Rightarrow> number \<Rightarrow> number" where
  "nmul (Fin x) (Fin y) = round64 (x * y)"
| "nmul NaN _ = NaN"
| "nmul _ NaN = NaN"
| "nmul PosInf (Fin y) = (if y = 0 then NaN else if 0 < y then PosInf else NegInf)"
| "nmul NegInf (Fin y) = (if y = 0 then NaN else if 0 < y then NegInf else PosInf)"
| "nmul (Fin x) PosInf = (if x = 0 then NaN else if 0 < x then PosInf else NegInf)"
| "nmul (Fin x) NegInf = (if x = 0 then NaN else if 0 < x then NegInf else PosInf)"
| "nmul PosInf PosInf = PosInf"
| "nmul NegInf NegInf = PosInf"
| "nmul PosInf NegInf = NegInf"
| "nmul NegInf PosInf = NegInf"

text \<open>
  Every divisor in the source is an array length or the literal 2, hence a finite number
  that is not negative; it is passed as a real. A finite number divided by zero is
  \<^verbatim>\<open>NaN\<close> when it is zero itself, and an infinity of its sign otherwise.
\<close>

fun ndiv :: "number \<Rightarrow> real \<Rightarrow> number" where
  "ndiv (Fin x) d =
     (if d = 0 then (if x = 0 then NaN else if 0 < x then PosInf else NegInf)
      else round64 (x / d))"
| "ndiv PosInf d = (if d < 0 then NegInf else PosInf)"
| "ndiv NegInf d = (if d < 0 then PosInf else NegInf)"
| "ndiv NaN d = NaN"

text \<open>
  \<^verbatim>\<open>x ** n\<close> for a literal exponent \<open>n\<close>. For the exponent 2, the only one in the
  source, the result is the rounded square \<^verbatim>\<open>x * x\<close>. Anything to the power 0 is 1.
\<close>

fun npow :: "number \<Rightarrow> nat \<Rightarrow> number" where
  "npow (Fin x) n = round64 (x ^ n)"
| "npow PosInf n = (if n = 0 then Fin 1 else PosInf)"
| "npow NegInf n = (if n = 0 then Fin 1 else if even n then PosInf else NegInf)"
| "npow NaN n = (if n = 0 then Fin 1 else NaN)"

text \<open>The comparison \<^verbatim>\<open>x < y\<close>; it is false when an operand is \<^verbatim>\<open>NaN\<close>.\<close>

fun nless :: "number \<Rightarrow> number \<Rightarrow> bool" where
  "nless (Fin x) (Fin y) = (x < y)"
| "nless NaN _ = False"
| "nless _ NaN = False"
| "nless _ NegInf = False"
| "nless PosInf _ = False"
| "nless NegInf _ = True"
| "nless _ PosInf = True"

text \<open>
  \<^verbatim>\<open>xs[i]\<close>: reading past the end of an array raises nothing, it yields
  \<^verbatim>\<open>undefined\<close>, which every use in this program turns into \<^verbatim>\<open>NaN\<close>.
\<close>

definition elem :: "number list \<Rightarrow> nat \<Rightarrow> number" where
  "elem xs i = (if i < length xs then xs ! i else NaN)"

section \<open>The program\<close>

text \<open>
  Objects are passed by reference in the source. A function of the model returns, after
  its own result, the final contents of every object it received by reference, in
  parameter order; a caller continues with the returned contents.
\<close>

subsection \<open>Ground truth and data sets\<close>

text \<open>The literal \<^verbatim>\<open>1.8\<close> denotes the double nearest to 18/10.\<close>

definition W :: number where
  "W = round64 (18 / 10)"

definition B :: number where
  "B = Fin 32"

definition celsiusToFahrenheit :: "number \<Rightarrow> number" where
  "celsiusToFahrenheit c = nadd (nmul c W) B"

text \<open>
  Both loops of \<^verbatim>\<open>generateDataSets\<close> have the same body:
  \<^verbatim>\<open>for (let x = x0; x < 100; x += 1) { const y = celsiusToFahrenheit(x); xs.push(x); ys.push(y); }\<close>
\<close>

function generate_loop :: "real \<Rightarrow> number list \<Rightarrow> number list \<Rightarrow> number list \<times> number list" where
  "generate_loop x xs ys =
     (if x < 100 then
        (let y = celsiusToFahrenheit (Fin x)
         in generate_loop (x + 1) (xs @ [Fin x]) (ys @ [y]))
      else (xs, ys))"
  by pat_completeness auto
termination
  by (relation "measure (\<lambda>(x, xs, ys). nat \<lceil>100 - x\<rceil>)") (auto simp: Let_def, linarith)

text \<open>The result is the source's object \<^verbatim>\<open>{xTrain, xTest, yTrain, yTest}\<close>, as a tuple in that order.\<close>

definition generateDataSets :: "number list \<times> number list \<times> number list \<times> number list" where
  "generateDataSets =
     (let (xTrain, yTrain) = generate_loop 0 [] [];
          (xTest, yTest) = generate_loop (1 / 2) [] []
      in (xTrain, xTest, yTrain, yTest))"

subsection \<open>The neuron\<close>

record NanoNeuron =
  w :: number
  b :: number

definition predict :: "NanoNeuron \<Rightarrow> number \<Rightarrow> number \<times> NanoNeuron" where
  "predict this x = (nadd (nmul x (w this)) (b this), this)"

definition predictionCost :: "number \<Rightarrow> number \<Rightarrow> number" where
  "predictionCost y yPredicted = ndiv (npow (nsub y yPredicted) 2) 2"

subsection \<open>Forward propagation\<close>

function forward_loop ::
  "NanoNeuron \<Rightarrow> number list \<Rightarrow> number list \<Rightarrow> nat \<Rightarrow> nat \<Rightarrow> number \<Rightarrow> number list \<Rightarrow>
   (number list \<times> number) \<times> NanoNeuron \<times> number list \<times> number list" where
  "forward_loop model xTrain yTrain m i cost predictions =
     (if i < m then
        (let (yPredicted, model') = predict model (elem xTrain i);
             cost' = nadd cost (predictionCost (elem yTrain i) yPredicted);
             predictions' = predictions @ [yPredicted]
         in forward_loop model' xTrain yTrain m (i + 1) cost' predictions')
      else ((predictions, cost), model, xTrain, yTrain))"
  by pat_completeness auto
termination
  by (relation "measure (\<lambda>(model, xTrain, yTrain, m, i, cost, predictions). m - i)") auto

text \<open>
  The result \<^verbatim>\<open>{predictions, averageCost}\<close> is the pair \<open>(predictions, averageCost)\<close>.
\<close>

definition forwardPropagation ::
  "NanoNeuron \<Rightarrow> number list \<Rightarrow> number list \<Rightarrow>
   (number list \<times> number) \<times> NanoNeuron \<times> number list \<times> number list" where
  "forwardPropagation model xTrain yTrain =
     (let m = length xTrain;
          ((predictions, cost), model', xTrain', yTrain') =
             forward_loop model xTrain yTrain m 0 (Fin 0) [];
          averageCost = ndiv cost (real m)
      in ((predictions, averageCost), model', xTrain', yTrain'))"

subsection \<open>Backward propagation\<close>

function backward_loop ::
  "number list \<Rightarrow> number list \<Rightarrow> number list \<Rightarrow> nat \<Rightarrow> nat \<Rightarrow> number \<Rightarrow> number \<Rightarrow>
   (number \<times> number) \<times> number list \<times> number list \<times> number list" where
  "backward_loop predictions xTrain yTrain m i deltaW deltaB =
     (if i < m then
        (let deltaW' = nadd deltaW (nmul (nsub (elem yTrain i) (elem predictions i)) (elem xTrain i));
             deltaB' = nadd deltaB (nsub (elem yTrain i) (elem predictions i))
         in backward_loop predictions xTrain yTrain m (i + 1) deltaW' deltaB')
      else ((deltaW, deltaB), predictions, xTrain, yTrain))"
  by pat_completeness auto
termination
  by (relation "measure (\<lambda>(predictions, xTrain, yTrain, m, i, deltaW, deltaB). m - i)") auto

text \<open>
  The result \<^verbatim>\<open>{averageDeltaB, averageDeltaW}\<close> is the pair
  \<open>(averageDeltaB, averageDeltaW)\<close>.
\<close>

definition backwardPropagation ::
  "number list \<Rightarrow> number list \<Rightarrow> number list \<Rightarrow>
   (number \<times> number) \<times> number list \<times> number list \<times> number list" where
  "backwardPropagation predictions xTrain yTrain =
     (let m = length xTrain;
          ((deltaW, deltaB), predictions', xTrain', yTrain') =
             backward_loop predictions xTrain yTrain m 0 (Fin 0) (Fin 0);
          averageDeltaW = ndiv deltaW (real m);
          averageDeltaB = ndiv deltaB (real m)
      in ((averageDeltaB, averageDeltaW), predictions', xTrain', yTrain'))"

subsection \<open>Training\<close>

text \<open>
  \<^verbatim>\<open>epochs\<close> is a finite number; the counter \<^verbatim>\<open>epoch\<close> starts at 0 and grows by 1,
  so it is a natural number. The loop test is the source's \<^verbatim>\<open>epoch < epochs\<close>.
\<close>

function train_loop ::
  "NanoNeuron \<Rightarrow> real \<Rightarrow> number \<Rightarrow> number list \<Rightarrow> number list \<Rightarrow> nat \<Rightarrow> number list \<Rightarrow>
   number list \<times> NanoNeuron \<times> number list \<times> number list" where
  "train_loop model epochs alpha xTrain yTrain epoch costHistory =
     (if real epoch < epochs then
        (let ((predictions, averageCost), model1, xTrain1, yTrain1) =
               forwardPropagation model xTrain yTrain;
             costHistory' = costHistory @ [averageCost];
             ((averageDeltaB, averageDeltaW), predictions2, xTrain2, yTrain2) =
               backwardPropagation predictions xTrain1 yTrain1;
             model2 = model1\<lparr>w := nadd (w model1) (nmul averageDeltaW alpha)\<rparr>;
             model3 = model2\<lparr>b := nadd (b model2) (nmul averageDeltaB alpha)\<rparr>
         in train_loop model3 epochs alpha xTrain2 yTrain2 (epoch + 1) costHistory')
      else (costHistory, model, xTrain, yTrain))"
  by pat_completeness auto
termination
  by (relation "measure (\<lambda>(model, epochs, alpha, xTrain, yTrain, epoch, costHistory).
        nat \<lceil>epochs\<rceil> - epoch)") (auto, linarith)

definition trainModel ::
  "NanoNeuron \<Rightarrow> real \<Rightarrow> number \<Rightarrow> number list \<Rightarrow> number list \<Rightarrow>
   number list \<times> NanoNeuron \<times> number list \<times> number list" where
  "trainModel model epochs alpha xTrain yTrain =
     train_loop model epochs alpha xTrain yTrain 0 []"

section \<open>The same loops with every array read and every division checked\<close>

text \<open>
  The source reads arrays and divides without any test. To say where a read past the end
  of an array or a division by zero would happen, both propagation functions are written
  a second time with each \<^verbatim>\<open>a[i]\<close> and each division by \<^verbatim>\<open>m\<close> replaced by a
  checked operation that stops with a fault. Nothing else differs from the functions
  above; the reads are in the order in which the source evaluates them.
\<close>

datatype fault = OutOfRange | DivisionByZero

definition elem_checked :: "number list \<Rightarrow> nat \<Rightarrow> fault + number" where
  "elem_checked xs i = (if i < length xs then Inr (xs ! i) else Inl OutOfRange)"

definition ndiv_checked :: "number \<Rightarrow> real \<Rightarrow> fault + number" where
  "ndiv_checked x d = (if d = 0 then Inl DivisionByZero else Inr (ndiv x d))"

function forward_loop_checked ::
  "NanoNeuron \<Rightarrow> number list \<Rightarrow> number list \<Rightarrow> nat \<Rightarrow> nat \<Rightarrow> number \<Rightarrow> number list \<Rightarrow>
   fault + ((number list \<times> number) \<times> NanoNeuron \<times> number list \<times> number list)" where
  "forward_loop_checked model xTrain yTrain m i cost predictions =
     (if i < m then
        (case elem_checked xTrain i of
           Inl e \<Rightarrow> Inl e
         | Inr x \<Rightarrow>
            (let (yPredicted, model') = predict model x
             in (case elem_checked yTrain i of
                   Inl e \<Rightarrow> Inl e
                 | Inr y \<Rightarrow>
                    (let cost' = nadd cost (predictionCost y yPredicted);
                         predictions' = predictions @ [yPredicted]
                     in forward_loop_checked model' xTrain yTrain m (i + 1) cost' predictions'))))
      else Inr ((predictions, cost), model, xTrain, yTrain))"
  by pat_completeness auto
termination
  by (relation "measure (\<lambda>(model, xTrain, yTrain, m, i, cost, predictions). m - i)") auto

definition forwardPropagation_checked ::
  "NanoNeuron \<Rightarrow> number list \<Rightarrow> number list \<Rightarrow>
   fault + ((number list \<times> number) \<times> NanoNeuron \<times> number list \<times> number list)" where
  "forwardPropagation_checked model xTrain yTrain =
     (let m = length xTrain
      in (case forward_loop_checked model xTrain yTrain m 0 (Fin 0) [] of
            Inl e \<Rightarrow> Inl e
          | Inr ((predictions, cost), model', xTrain', yTrain') \<Rightarrow>
             (case ndiv_checked cost (real m) of
                Inl e \<Rightarrow> Inl e
              | Inr averageCost \<Rightarrow> Inr ((predictions, averageCost), model', xTrain', yTrain'))))"

function backward_loop_checked ::
  "number list \<Rightarrow> number list \<Rightarrow> number list \<Rightarrow> nat \<Rightarrow> nat \<Rightarrow> number \<Rightarrow> number \<Rightarrow>
   fault + ((number \<times> number) \<times> number list \<times> number list \<times> number list)" where
  "backward_loop_checked predictions xTrain yTrain m i deltaW deltaB =
     (if i < m then
        (case elem_checked yTrain i of
           Inl e \<Rightarrow> Inl e
         | Inr y \<Rightarrow>
        (case elem_checked predictions i of
           Inl e \<Rightarrow> Inl e
         | Inr p \<Rightarrow>
        (case elem_checked xTrain i of
           Inl e \<Rightarrow> Inl e
         | Inr x \<Rightarrow>
        (let deltaW' = nadd deltaW (nmul (nsub y p) x)
         in
        (case elem_checked yTrain i of
           Inl e \<Rightarrow> Inl e
         | Inr y2 \<Rightarrow>
        (case elem_checked predictions i of
           Inl e \<Rightarrow> Inl e
         | Inr p2 \<Rightarrow>
        (let deltaB' = nadd deltaB (nsub y2 p2)
         in backward_loop_checked predictions xTrain yTrain m (i + 1) deltaW' deltaB')))))))
      else Inr ((deltaW, deltaB), predictions, xTrain, yTrain))"
  by pat_completeness auto
termination
  by (relation "measure (\<lambda>(predictions, xTrain, yTrain, m, i, deltaW, deltaB). m - i)") auto

definition backwardPropagation_checked ::
  "number list \<Rightarrow> number list \<Rightarrow> number list \<Rightarrow>
   fault + ((number \<times> number) \<times> number list \<times> number list \<times> number list)" where
  "backwardPropagation_checked predictions xTrain yTrain =
     (let m = length xTrain
      in (case backward_loop_checked predictions xTrain yTrain m 0 (Fin 0) (Fin 0) of
            Inl e \<Rightarrow> Inl e
          | Inr ((deltaW, deltaB), predictions', xTrain', yTrain') \<Rightarrow>
             (case ndiv_checked deltaW (real m) of
                Inl e \<Rightarrow> Inl e
              | Inr averageDeltaW \<Rightarrow>
                 (case ndiv_checked deltaB (real m) of
                    Inl e \<Rightarrow> Inl e
                  | Inr averageDeltaB \<Rightarrow>
                     Inr ((averageDeltaB, averageDeltaW), predictions', xTrain', yTrain')))))"

section \<open>One training iteration, as the specification words it\<close>

text \<open>
  The four steps of an iteration in the order the specification gives them: the forward
  pass on the current model, the average cost appended to the history, the backward pass
  on the predictions just computed, and the update \<open>w += averageDeltaW * alpha\<close>,
  \<open>b += averageDeltaB * alpha\<close>.
\<close>

definition spec_epoch ::
  "number \<Rightarrow> number list \<Rightarrow> number list \<Rightarrow> NanoNeuron \<times> number list \<Rightarrow> NanoNeuron \<times> number list" where
  "spec_epoch alpha inputs targets state =
     (let (model, costHistory) = state;
          (predictions, averageCost) = fst (forwardPropagation model inputs targets);
          costHistory' = costHistory @ [averageCost];
          (averageDeltaB, averageDeltaW) = fst (backwardPropagation predictions inputs targets)
      in (model\<lparr>w := nadd (w model) (nmul averageDeltaW alpha),
                b := nadd (b model) (nmul averageDeltaB alpha)\<rparr>,
          costHistory'))"

text \<open>
  The update step alone: the two assignments to \<open>w\<close> and \<open>b\<close>, with the deltas that
  the two passes compute for the model as it is before the update.
\<close>

definition spec_update :: "number \<Rightarrow> number list \<Rightarrow> number list \<Rightarrow> NanoNeuron \<Rightarrow> NanoNeuron" where
  "spec_update alpha inputs targets model =
     (let (predictions, averageCost) = fst (forwardPropagation model inputs targets);
          (averageDeltaB, averageDeltaW) = fst (backwardPropagation predictions inputs targets)
      in model\<lparr>w := nadd (w model) (nmul averageDeltaW alpha),
               b := nadd (b model) (nmul averageDeltaB alpha)\<rparr>)"

section \<open>Sums as the program accumulates them\<close>

text \<open>
  \<open>fsum cs\<close> is \<open>\<Sum> cs\<close> in the arithmetic of the program: starting from 0, the terms
  are added in the order of the list, each addition rounded.
\<close>

definition fsum :: "number list \<Rightarrow> number" where
  "fsum cs = foldl nadd (Fin 0) cs"

section \<open>Signs\<close>

text \<open>
  \<open>at_least c n\<close>: the number \<open>n\<close> is \<open>+\<infinity>\<close> or a finite number not below \<open>c\<close>.
  \<open>not_negative n\<close>: the comparison \<^verbatim>\<open>n < 0\<close> is false.
\<close>

definition at_least :: "real \<Rightarrow> number \<Rightarrow> bool" where
  "at_least c n = (case n of Fin r \<Rightarrow> c \<le> r | PosInf \<Rightarrow> True | NegInf \<Rightarrow> False | NaN \<Rightarrow> False)"

definition not_negative :: "number \<Rightarrow> bool" where
  "not_negative n = (\<not> nless n (Fin 0))"

section \<open>The loops in closed form\<close>

declare exponent_search.simps [simp del]
  generate_loop.simps [simp del] forward_loop.simps [simp del]
  backward_loop.simps [simp del] train_loop.simps [simp del]
  forward_loop_checked.simps [simp del] backward_loop_checked.simps [simp del]

lemma predict_frame: "snd (predict this x) = this"
  by (simp add: predict_def)

lemma forward_loop_eq:
  "forward_loop model xTrain yTrain m i cost predictions =
     ((predictions @ map (\<lambda>j. fst (predict model (elem xTrain j))) [i..<m],
       foldl (\<lambda>c j. nadd c (predictionCost (elem yTrain j) (fst (predict model (elem xTrain j))))) cost [i..<m]),
      model, xTrain, yTrain)"
proof (induction model xTrain yTrain m i cost predictions rule: forward_loop.induct)
  case (1 model xTrain yTrain m i cost predictions)
  show ?case
  proof (cases "i < m")
    case True
    have step: "predict model (elem xTrain i) = (fst (predict model (elem xTrain i)), model)"
      by (simp add: predict_def)
    show ?thesis
      using True "1.IH"[OF True step[symmetric] refl refl refl]
      by (subst forward_loop.simps) (simp add: step[symmetric] upt_conv_Cons Let_def predict_def)
  next
    case False
    then show ?thesis by (subst forward_loop.simps) simp
  qed
qed

lemma backward_loop_eq:
  "backward_loop predictions xTrain yTrain m i deltaW deltaB =
     ((foldl (\<lambda>d j. nadd d (nmul (nsub (elem yTrain j) (elem predictions j)) (elem xTrain j))) deltaW [i..<m],
       foldl (\<lambda>d j. nadd d (nsub (elem yTrain j) (elem predictions j))) deltaB [i..<m]),
      predictions, xTrain, yTrain)"
proof (induction predictions xTrain yTrain m i deltaW deltaB rule: backward_loop.induct)
  case (1 predictions xTrain yTrain m i deltaW deltaB)
  show ?case
  proof (cases "i < m")
    case True
    show ?thesis
      using True "1.IH"[OF True refl refl]
      by (subst backward_loop.simps) (simp add: upt_conv_Cons Let_def)
  next
    case False
    then show ?thesis by (subst backward_loop.simps) simp
  qed
qed

lemma foldl_nadd_fsum: "foldl (\<lambda>c j. nadd c (g j)) (Fin 0) js = fsum (map g js)"
  by (simp add: fsum_def foldl_map)

lemma forwardPropagation_eq:
  "forwardPropagation model xTrain yTrain =
     ((map (\<lambda>j. fst (predict model (elem xTrain j))) [0..<length xTrain],
       ndiv (foldl (\<lambda>c j. nadd c (predictionCost (elem yTrain j) (fst (predict model (elem xTrain j)))))
               (Fin 0) [0..<length xTrain]) (real (length xTrain))),
      model, xTrain, yTrain)"
  by (simp add: forwardPropagation_def forward_loop_eq Let_def)

lemma backwardPropagation_eq:
  "backwardPropagation predictions xTrain yTrain =
     ((ndiv (foldl (\<lambda>d j. nadd d (nsub (elem yTrain j) (elem predictions j))) (Fin 0) [0..<length xTrain])
          (real (length xTrain)),
       ndiv (foldl (\<lambda>d j. nadd d (nmul (nsub (elem yTrain j) (elem predictions j)) (elem xTrain j)))
               (Fin 0) [0..<length xTrain]) (real (length xTrain))),
      predictions, xTrain, yTrain)"
  by (simp add: backwardPropagation_def backward_loop_eq Let_def)

lemma forwardPropagation_frame: "snd (forwardPropagation model xTrain yTrain) = (model, xTrain, yTrain)"
  by (simp add: forwardPropagation_eq)

lemma backwardPropagation_frame:
  "snd (backwardPropagation predictions xTrain yTrain) = (predictions, xTrain, yTrain)"
  by (simp add: backwardPropagation_eq)

lemma train_loop_step:
  assumes "real epoch < epochs"
  shows "train_loop model epochs alpha xTrain yTrain epoch costHistory =
     train_loop (fst (spec_epoch alpha xTrain yTrain (model, costHistory))) epochs alpha xTrain yTrain
       (epoch + 1) (snd (spec_epoch alpha xTrain yTrain (model, costHistory)))"
  using assms
  by (subst train_loop.simps)
     (simp add: spec_epoch_def forwardPropagation_eq backwardPropagation_eq Let_def)

lemma train_loop_exit:
  assumes "\<not> real epoch < epochs"
  shows "train_loop model epochs alpha xTrain yTrain epoch costHistory =
     (costHistory, model, xTrain, yTrain)"
  using assms by (subst train_loop.simps) simp

lemma train_loop_funpow:
  "epoch + k = n \<Longrightarrow>
   train_loop model (real n) alpha xTrain yTrain epoch costHistory =
     (snd ((spec_epoch alpha xTrain yTrain ^^ k) (model, costHistory)),
      fst ((spec_epoch alpha xTrain yTrain ^^ k) (model, costHistory)), xTrain, yTrain)"
proof (induction k arbitrary: epoch model costHistory)
  case 0
  then show ?case by (simp add: train_loop_exit)
next
  case (Suc k)
  from Suc.prems have lt: "real epoch < real n" and nxt: "(epoch + 1) + k = n" by simp_all
  show ?case
    by (simp only: train_loop_step[OF lt] Suc.IH[OF nxt] funpow_Suc_right o_apply prod.collapse)
qed

lemma spec_epoch_length:
  "length (snd (spec_epoch alpha xTrain yTrain state)) = length (snd state) + 1"
  by (simp add: spec_epoch_def Let_def split: prod.splits)

lemma spec_epoch_funpow_length:
  "length (snd ((spec_epoch alpha xTrain yTrain ^^ k) state)) = length (snd state) + k"
  by (induction k) (simp_all add: spec_epoch_length)

lemma train_loop_frame:
  "snd (snd (train_loop model epochs alpha xTrain yTrain epoch costHistory)) = (xTrain, yTrain)"
proof (induction model epochs alpha xTrain yTrain epoch costHistory rule: train_loop.induct)
  case (1 model epochs alpha xTrain yTrain epoch costHistory)
  show ?case
  proof (cases "real epoch < epochs")
    case True
    show ?thesis
      using True "1.IH"[OF True]
      by (subst train_loop.simps)
         (simp add: forwardPropagation_eq backwardPropagation_eq Let_def)
  next
    case False
    then show ?thesis by (simp add: train_loop_exit)
  qed
qed

lemma generate_loop_eq:
  assumes "0 \<le> c" and "c < 1" and "k + d = 100"
  shows "generate_loop (real k + c) xs ys =
     (xs @ map (\<lambda>j. Fin (real j + c)) [k..<100],
      ys @ map (\<lambda>j. celsiusToFahrenheit (Fin (real j + c))) [k..<100])"
  using assms(3)
proof (induction d arbitrary: k xs ys)
  case 0
  then have "\<not> real k + c < 100" using assms(1) by simp
  with 0 show ?case by (subst generate_loop.simps) simp
next
  case (Suc d)
  then have k: "k < 100" and nxt: "Suc k + d = 100" by simp_all
  from k have "real k + 1 \<le> 100" by linarith
  with assms(2) have lt: "real k + c < 100" by linarith
  have shift: "real k + c + 1 = real (Suc k) + c" by simp
  show ?case
    using lt k
    by (subst generate_loop.simps)
       (simp only: if_True Let_def shift Suc.IH[OF nxt], simp add: upt_conv_Cons)
qed

lemma forward_loop_checked_in_bounds:
  "m \<le> length xTrain \<Longrightarrow> m \<le> length yTrain \<Longrightarrow>
   forward_loop_checked model xTrain yTrain m i cost predictions =
     Inr (forward_loop model xTrain yTrain m i cost predictions)"
proof (induction model xTrain yTrain m i cost predictions rule: forward_loop.induct)
  case (1 model xTrain yTrain m i cost predictions)
  show ?case
  proof (cases "i < m")
    case True
    with "1.prems" have inb: "i < length xTrain" "i < length yTrain" by simp_all
    have step: "predict model (elem xTrain i) = (fst (predict model (elem xTrain i)), model)"
      by (simp add: predict_def)
    have IH: "forward_loop_checked model xTrain yTrain m (i + 1)
                (nadd cost (predictionCost (elem yTrain i) (fst (predict model (elem xTrain i)))))
                (predictions @ [fst (predict model (elem xTrain i))])
              = Inr (forward_loop model xTrain yTrain m (i + 1)
                (nadd cost (predictionCost (elem yTrain i) (fst (predict model (elem xTrain i)))))
                (predictions @ [fst (predict model (elem xTrain i))]))"
      using "1.IH"[OF True step[symmetric] refl refl refl "1.prems"] .
    show ?thesis
      apply (subst forward_loop_checked.simps)
      apply (subst forward_loop.simps)
      using True inb IH
      apply (simp add: elem_checked_def elem_def predict_def Let_def)
      done
  next
    case False
    then show ?thesis
      by (subst forward_loop_checked.simps, subst forward_loop.simps) simp
  qed
qed

lemma backward_loop_checked_in_bounds:
  "m \<le> length xTrain \<Longrightarrow> m \<le> length yTrain \<Longrightarrow> m \<le> length predictions \<Longrightarrow>
   backward_loop_checked predictions xTrain yTrain m i deltaW deltaB =
     Inr (backward_loop predictions xTrain yTrain m i deltaW deltaB)"
proof (induction predictions xTrain yTrain m i deltaW deltaB rule: backward_loop.induct)
  case (1 predictions xTrain yTrain m i deltaW deltaB)
  show ?case
  proof (cases "i < m")
    case True
    with "1.prems" have inb: "i < length xTrain" "i < length yTrain" "i < length predictions"
      by simp_all
    show ?thesis
      apply (subst backward_loop_checked.simps)
      apply (subst backward_loop.simps)
      using True inb "1.IH"[OF True refl refl "1.prems"]
      apply (simp add: elem_checked_def elem_def Let_def)
      done
  next
    case False
    then show ?thesis
      by (subst backward_loop_checked.simps, subst backward_loop.simps) simp
  qed
qed

text \<open>The checked functions report the faults that the unchecked ones pass over in silence.\<close>

lemma checked_functions_report_faults:
  "forwardPropagation_checked model [] [] = Inl DivisionByZero"
  "forwardPropagation_checked model [Fin 1] [] = Inl OutOfRange"
  "backwardPropagation_checked [] [Fin 1] [Fin 1] = Inl OutOfRange"
    apply (simp_all add: forwardPropagation_checked_def forwardPropagation_eq backwardPropagation_eq
       backwardPropagation_checked_def Let_def)
    apply (subst forward_loop_checked.simps, simp add: ndiv_checked_def)
   apply (subst forward_loop_checked.simps, simp add: elem_checked_def predict_def)
  apply (subst backward_loop_checked.simps, simp add: elem_checked_def)
  done

lemma generateDataSets_eq:
  "generateDataSets =
     (map (\<lambda>k. Fin (real k)) [0..<100],
      map (\<lambda>k. Fin (real k + 1 / 2)) [0..<100],
      map (\<lambda>k. celsiusToFahrenheit (Fin (real k))) [0..<100],
      map (\<lambda>k. celsiusToFahrenheit (Fin (real k + 1 / 2))) [0..<100])"
proof -
  have train: "generate_loop 0 [] [] =
     (map (\<lambda>k. Fin (real k)) [0..<100], map (\<lambda>k. celsiusToFahrenheit (Fin (real k))) [0..<100])"
    using generate_loop_eq[of 0 0 100 "[]" "[]"] by simp
  have test: "generate_loop (1 / 2) [] [] =
     (map (\<lambda>k. Fin (real k + 1 / 2)) [0..<100],
      map (\<lambda>k. celsiusToFahrenheit (Fin (real k + 1 / 2))) [0..<100])"
    using generate_loop_eq[of "1 / 2" 0 100 "[]" "[]"] by simp
  show ?thesis
    by (simp add: generateDataSets_def train test)
qed

section \<open>Rounding\<close>

subsection \<open>Powers of two and the exponent search\<close>

lemma pow2_powr: "pow2 k = 2 powr (of_int k)"
proof (cases "0 \<le> k")
  case True
  have "(2::real) powr real (nat k) = 2 ^ nat k" by (rule powr_realpow) simp
  moreover from True have "real (nat k) = real_of_int k" by simp
  ultimately show ?thesis using True by (simp add: pow2_def)
next
  case False
  have "(2::real) powr real (nat (- k)) = 2 ^ nat (- k)" by (rule powr_realpow) simp
  moreover from False have "real (nat (- k)) = - real_of_int k" by simp
  ultimately have e: "(2::real) powr (- real_of_int k) = 2 ^ nat (- k)" by simp
  have "(2::real) powr real_of_int k = 1 / 2 powr (- real_of_int k)"
    by (simp add: powr_minus_divide)
  then have "(2::real) powr real_of_int k = 1 / 2 ^ nat (- k)"
    by (simp only: e)
  with False show ?thesis by (simp add: pow2_def)
qed

lemma pow2_pos [simp]: "0 < pow2 k"
  by (simp add: pow2_powr)

lemma pow2_nonneg [simp]: "0 \<le> pow2 k"
  using pow2_pos[of k] by linarith

lemma pow2_nonzero [simp]: "pow2 k \<noteq> 0"
  using pow2_pos[of k] by linarith

lemma pow2_add: "pow2 (j + k) = pow2 j * pow2 k"
  by (simp add: pow2_powr powr_add)

lemma pow2_mono: "j \<le> k \<Longrightarrow> pow2 j \<le> pow2 k"
  by (simp add: pow2_powr)

lemma pow2_less: "pow2 j < pow2 k \<Longrightarrow> j < k"
  by (simp add: pow2_powr)

lemma pow2_nat: "0 \<le> k \<Longrightarrow> pow2 k = 2 ^ nat k"
  by (simp add: pow2_def)

lemma exponent_search_range:
  "lo \<le> hi \<Longrightarrow> lo \<le> exponent_search a lo hi \<and> exponent_search a lo hi \<le> hi"
proof (induction a lo hi rule: exponent_search.induct)
  case (1 a lo hi)
  show ?case
  proof (cases "hi \<le> lo")
    case True
    with "1.prems" show ?thesis by (subst exponent_search.simps, subst (2) exponent_search.simps) simp
  next
    case False
    let ?mid = "(lo + hi + 1) div 2"
    from False have m: "lo < ?mid" "?mid \<le> hi" by linarith+
    show ?thesis
    proof (cases "pow2 ?mid \<le> a")
      case True
      from "1.IH"(1)[OF False refl True] m have "?mid \<le> exponent_search a ?mid hi \<and> exponent_search a ?mid hi \<le> hi"
        by simp
      with m False True show ?thesis
        by (subst exponent_search.simps, subst (2) exponent_search.simps) (simp add: Let_def)
    next
      case F: False
      from "1.IH"(2)[OF False refl F] m have "lo \<le> exponent_search a lo (?mid - 1) \<and> exponent_search a lo (?mid - 1) \<le> ?mid - 1"
        by simp
      with m False F show ?thesis
        by (subst exponent_search.simps, subst (2) exponent_search.simps) (simp add: Let_def)
    qed
  qed
qed

lemma exponent_search_lower:
  "lo \<le> hi \<Longrightarrow> exponent_search a lo hi = lo \<or> pow2 (exponent_search a lo hi) \<le> a"
proof (induction a lo hi rule: exponent_search.induct)
  case (1 a lo hi)
  show ?case
  proof (cases "hi \<le> lo")
    case True
    then show ?thesis by (subst exponent_search.simps) simp
  next
    case False
    let ?mid = "(lo + hi + 1) div 2"
    from False have m: "lo < ?mid" "?mid \<le> hi" by linarith+
    show ?thesis
    proof (cases "pow2 ?mid \<le> a")
      case True
      have eq: "exponent_search a lo hi = exponent_search a ?mid hi"
        using False True by (subst exponent_search.simps) (simp add: Let_def)
      from "1.IH"(1)[OF False refl True] m
      have "exponent_search a ?mid hi = ?mid \<or> pow2 (exponent_search a ?mid hi) \<le> a" by simp
      with True have "pow2 (exponent_search a ?mid hi) \<le> a" by auto
      with eq show ?thesis by simp
    next
      case F: False
      have eq: "exponent_search a lo hi = exponent_search a lo (?mid - 1)"
        using False F by (subst exponent_search.simps) (simp add: Let_def)
      from "1.IH"(2)[OF False refl F] m
      have "exponent_search a lo (?mid - 1) = lo \<or> pow2 (exponent_search a lo (?mid - 1)) \<le> a" by simp
      with eq show ?thesis by simp
    qed
  qed
qed

lemma exponent_search_upper:
  "lo \<le> hi \<Longrightarrow> a < pow2 (hi + 1) \<Longrightarrow> a < pow2 (exponent_search a lo hi + 1)"
proof (induction a lo hi rule: exponent_search.induct)
  case (1 a lo hi)
  show ?case
  proof (cases "hi \<le> lo")
    case True
    with "1.prems" have "hi = lo" by simp
    with "1.prems" show ?thesis by (subst exponent_search.simps) simp
  next
    case False
    let ?mid = "(lo + hi + 1) div 2"
    from False have m: "lo < ?mid" "?mid \<le> hi" by linarith+
    show ?thesis
    proof (cases "pow2 ?mid \<le> a")
      case True
      have eq: "exponent_search a lo hi = exponent_search a ?mid hi"
        using False True by (subst exponent_search.simps) (simp add: Let_def)
      from "1.IH"(1)[OF False refl True m(2) "1.prems"(2)] eq show ?thesis by simp
    next
      case F: False
      have eq: "exponent_search a lo hi = exponent_search a lo (?mid - 1)"
        using False F by (subst exponent_search.simps) (simp add: Let_def)
      from F have "a < pow2 (?mid - 1 + 1)" by simp
      from "1.IH"(2)[OF False refl F _ this] m eq show ?thesis by simp
    qed
  qed
qed

lemma binade_range: "- 1022 \<le> binade a \<and> binade a \<le> 1023"
  unfolding binade_def by (rule exponent_search_range) simp

lemma binade_lower: "binade a = - 1022 \<or> pow2 (binade a) \<le> a"
  unfolding binade_def by (rule exponent_search_lower) simp

lemma binade_upper: "a < pow2 1024 \<Longrightarrow> a < pow2 (binade a + 1)"
  unfolding binade_def by (rule exponent_search_upper) simp_all

lemma binade_eq:
  assumes "pow2 e \<le> a" and "a < pow2 (e + 1)" and "- 1022 \<le> e" and "e \<le> 1023"
  shows "binade a = e"
proof -
  have up: "a < pow2 1024"
    using assms(2) pow2_mono[of "e + 1" 1024] assms(4) by linarith
  from binade_upper[OF up] assms(1) have "pow2 e < pow2 (binade a + 1)" by linarith
  then have le: "e \<le> binade a" using pow2_less by fastforce
  show ?thesis
  proof (rule ccontr)
    assume "binade a \<noteq> e"
    with le have lt: "e + 1 \<le> binade a" by simp
    then have "binade a \<noteq> - 1022" using assms(3) by simp
    with binade_lower[of a] have "pow2 (binade a) \<le> a" by simp
    with pow2_mono[OF lt] assms(2) show False by linarith
  qed
qed

lemma round_half_even_int [simp]: "round_half_even (of_int n) = n"
  by (simp add: round_half_even_def)

lemma round_half_even_ge: "of_int j \<le> q \<Longrightarrow> j \<le> round_half_even q"
proof -
  assume "of_int j \<le> q"
  then have "j \<le> \<lfloor>q\<rfloor>" by (simp add: le_floor_iff)
  then show ?thesis by (simp add: round_half_even_def Let_def)
qed

lemma round_half_even_le: "q \<le> of_int j \<Longrightarrow> round_half_even q \<le> j"
proof -
  assume q: "q \<le> of_int j"
  show ?thesis
  proof (cases "q = of_int j")
    case True
    then show ?thesis by simp
  next
    case False
    with q have "q < of_int j" by simp
    then have "\<lfloor>q\<rfloor> < j" by (simp add: floor_less_iff)
    then show ?thesis by (simp add: round_half_even_def Let_def)
  qed
qed

lemma round_half_even_error: "\<bar>of_int (round_half_even q) - q\<bar> \<le> 1 / 2"
proof -
  have "of_int \<lfloor>q\<rfloor> \<le> q" "q < of_int \<lfloor>q\<rfloor> + 1" by linarith+
  then show ?thesis by (auto simp: round_half_even_def Let_def)
qed

lemma round64_exact:
  assumes "binade \<bar>x\<bar> = e" and "x / pow2 (e - 52) = of_int n" and "\<bar>x\<bar> < 2 ^ 1024"
  shows "round64 x = Fin x"
proof -
  from assms(2) have "of_int n * pow2 (e - 52) = x"
    by (simp add: nonzero_divide_eq_eq)
  with assms show ?thesis
    by (simp add: round64_def Let_def)
qed

lemma round_half_even_zero [simp]: "round_half_even 0 = 0"
  using round_half_even_int[of 0] by simp

lemma round64_zero [simp]: "round64 0 = Fin 0"
  by (simp add: round64_def Let_def)

lemma round64_half_integer:
  assumes "x = of_int n / 2" and "\<bar>x\<bar> < 2 ^ 52"
  shows "round64 x = Fin x"
proof (cases "\<bar>x\<bar> < 1")
  case True
  have "\<bar>of_int n :: real\<bar> < 2" using True assms(1) by simp
  then have "\<bar>n\<bar> < 2" by linarith
  then consider "n = 0" | "n = 1" | "n = - 1" by linarith
  then show ?thesis
  proof cases
    case 1
    then show ?thesis using assms(1) by simp
  next
    case 2
    have b: "binade \<bar>x\<bar> = - 1"
      by (rule binade_eq) (simp_all add: assms(1) 2 pow2_def)
    show ?thesis
      by (rule round64_exact[OF b, of "2 ^ 52"]) (simp_all add: assms(1) 2 pow2_def)
  next
    case 3
    have b: "binade \<bar>x\<bar> = - 1"
      by (rule binade_eq) (simp_all add: assms(1) 3 pow2_def)
    show ?thesis
      by (rule round64_exact[OF b, of "- (2 ^ 52)"]) (simp_all add: assms(1) 3 pow2_def)
  qed
next
  case False
  let ?e = "binade \<bar>x\<bar>"
  have one: "pow2 0 \<le> \<bar>x\<bar>" using False by (simp add: pow2_def)
  have "pow2 52 \<le> pow2 1024" by (rule pow2_mono) simp
  moreover have "\<bar>x\<bar> < pow2 52" using assms(2) by (simp add: pow2_nat)
  ultimately have up: "\<bar>x\<bar> < pow2 1024" by linarith
  have lo: "pow2 ?e \<le> \<bar>x\<bar>"
  proof (cases "?e = - 1022")
    case True
    have "pow2 (- 1022) \<le> pow2 0" by (rule pow2_mono) simp
    with one have "pow2 (- 1022) \<le> \<bar>x\<bar>" by linarith
    then show ?thesis unfolding True .
  next
    case False
    with binade_lower[of "\<bar>x\<bar>"] show ?thesis by simp
  qed
  have hi: "\<bar>x\<bar> < pow2 (?e + 1)" by (rule binade_upper[OF up])
  from one hi have "pow2 0 < pow2 (?e + 1)" by linarith
  then have e0: "0 \<le> ?e" using pow2_less by fastforce
  have "pow2 ?e < pow2 52" using lo assms(2) by (simp add: pow2_nat)
  then have e52: "?e < 52" by (rule pow2_less)
  have "x / pow2 (?e - 52) = x * pow2 (52 - ?e)"
    using pow2_add[of "?e - 52" "52 - ?e"] by (simp add: field_simps pow2_def)
  also have "\<dots> = of_int n / 2 * 2 ^ nat (52 - ?e)"
    using e52 by (simp add: pow2_nat assms(1))
  also have "\<dots> = of_int (n * 2 ^ nat (51 - ?e))"
  proof -
    from e52 have "nat (52 - ?e) = Suc (nat (51 - ?e))" by simp
    then show ?thesis by simp
  qed
  finally have "x / pow2 (?e - 52) = of_int (n * 2 ^ nat (51 - ?e))" .
  moreover have "\<bar>x\<bar> < 2 ^ 1024"
    using up by (simp add: pow2_def)
  ultimately show ?thesis by (rule round64_exact[OF refl])
qed

text \<open>Numerals that are doubles: integers and halves of integers below \<open>2\<^sup>5\<^sup>2\<close>.\<close>

lemma round64_of_int:
  "\<bar>of_int n :: real\<bar> < 2 ^ 51 \<Longrightarrow> round64 (of_int n) = Fin (of_int n)"
  by (rule round64_half_integer[of _ "2 * n"]) simp_all

lemma round64_half_of_int:
  "\<bar>of_int n :: real\<bar> < 2 ^ 51 \<Longrightarrow> round64 (of_int n / 2) = Fin (of_int n / 2)"
  by (rule round64_half_integer[of _ n]) simp_all

lemma round64_numeral [simp]:
  "(numeral k :: real) < 2 ^ 51 \<Longrightarrow> round64 (numeral k) = Fin (numeral k)"
  using round64_of_int[of "numeral k"] by simp

lemma round64_neg_numeral [simp]:
  "(numeral k :: real) < 2 ^ 51 \<Longrightarrow> round64 (- numeral k) = Fin (- numeral k)"
  using round64_of_int[of "- numeral k"] by simp

lemma round64_one [simp]: "round64 1 = Fin 1"
  using round64_of_int[of 1] by simp

lemma round64_neg_one [simp]: "round64 (- 1) = Fin (- 1)"
  using round64_of_int[of "- 1"] by simp

lemma round64_half_numeral [simp]:
  "(numeral k :: real) < 2 ^ 51 \<Longrightarrow> round64 (numeral k / 2) = Fin (numeral k / 2)"
  using round64_half_of_int[of "numeral k"] by simp

text \<open>
  The counter of \<open>generate_loop\<close> starts at 0 or 1/2 and stays below 101. On such
  values \<^verbatim>\<open>x += 1\<close> is exact and \<^verbatim>\<open>x < 100\<close> is the comparison of the reals, which is
  why the counter is kept as the real it denotes.
\<close>

lemma counter_step_exact:
  assumes "x = of_int n / 2" and "0 \<le> x" and "x < 100"
  shows "nadd (Fin x) (Fin 1) = Fin (x + 1)" and "nless (Fin x) (Fin 100)" and "is_double (Fin x)"
proof -
  have small: "(100::real) < 2 ^ 52" "(101::real) < 2 ^ 52" by simp_all
  have "round64 (x + 1) = Fin (x + 1)"
    by (rule round64_half_integer[of _ "n + 2"]) (use assms small in \<open>simp_all add: field_simps\<close>)
  then show "nadd (Fin x) (Fin 1) = Fin (x + 1)" by simp
  show "nless (Fin x) (Fin 100)" using assms(3) by simp
  have "round64 x = Fin x"
    by (rule round64_half_integer[of _ n]) (use assms small in simp_all)
  then show "is_double (Fin x)" by simp
qed

subsection \<open>Lower bounds and signs of rounded results\<close>

lemma round64_cases:
  obtains r where "round64 y = Fin r" "r = of_int (round_half_even (y / pow2 (binade \<bar>y\<bar> - 52))) * pow2 (binade \<bar>y\<bar> - 52)"
  | "round64 y = PosInf" "0 < y"
  | "round64 y = NegInf" "y < 0"
proof -
  let ?u = "pow2 (binade \<bar>y\<bar> - 52)"
  let ?r = "of_int (round_half_even (y / ?u)) * ?u"
  show ?thesis
  proof (cases "2 ^ 1024 \<le> \<bar>?r\<bar>")
    case False
    then have "round64 y = Fin ?r" by (simp add: round64_def Let_def)
    then show ?thesis using that(1) by blast
  next
    case True
    have "y \<noteq> 0"
    proof
      assume "y = 0"
      then have "?r = 0" by simp
      with True show False by simp
    qed
    then consider "0 < y" | "y < 0" by linarith
    then show ?thesis
    proof cases
      case 1
      with True have "round64 y = PosInf" by (simp add: round64_def Let_def)
      with 1 show ?thesis using that(2) by blast
    next
      case 2
      with True have "round64 y = NegInf" by (simp add: round64_def Let_def)
      with 2 show ?thesis using that(3) by blast
    qed
  qed
qed

lemma round64_at_least:
  assumes "real j * pow2 (- 1074) \<le> y" and "j \<le> 2 ^ 53"
  shows "at_least (real j * pow2 (- 1074)) (round64 y)"
proof -
  let ?e = "binade \<bar>y\<bar>"
  let ?u = "pow2 (?e - 52)"
  let ?n = "round_half_even (y / ?u)"
  have "0 \<le> real j * pow2 (- 1074)" by simp
  with assms(1) have y0: "0 \<le> y" by linarith
  have r: "real j * pow2 (- 1074) \<le> of_int ?n * ?u"
  proof (cases "?e = - 1022")
    case True
    then have u: "?u = pow2 (- 1074)" by simp
    have "real j \<le> y / pow2 (- 1074)"
      using assms(1) by (simp add: pos_le_divide_eq)
    then have "of_int (int j) \<le> y / ?u" by (simp add: u)
    then have "int j \<le> ?n" by (rule round_half_even_ge)
    then have "real j \<le> of_int ?n" by linarith
    then show ?thesis by (simp add: u)
  next
    case False
    with binade_lower[of "\<bar>y\<bar>"] y0 have lo: "pow2 ?e \<le> y" by simp
    from False binade_range[of "\<bar>y\<bar>"] have e: "- 1021 \<le> ?e" by linarith
    have split: "pow2 ?e = pow2 52 * ?u"
      using pow2_add[of 52 "?e - 52"] by simp
    then have "pow2 52 \<le> y / ?u"
      using lo by (simp add: pos_le_divide_eq)
    then have "of_int (2 ^ 52) \<le> y / ?u" by (simp add: pow2_nat)
    then have "2 ^ 52 \<le> ?n" by (rule round_half_even_ge)
    then have "(2::real) ^ 52 \<le> of_int ?n"
      by (metis of_int_le_iff of_int_numeral of_int_power)
    then have "pow2 52 * ?u \<le> of_int ?n * ?u"
      by (simp add: pow2_nat)
    with split have "pow2 ?e \<le> of_int ?n * ?u" by simp
    moreover have "pow2 (- 1021) \<le> pow2 ?e" by (rule pow2_mono[OF e])
    moreover have "pow2 (- 1021) = 2 ^ 53 * pow2 (- 1074)"
      using pow2_add[of 53 "- 1074"] by (simp add: pow2_nat)
    moreover have "real j * pow2 (- 1074) \<le> 2 ^ 53 * pow2 (- 1074)"
    proof -
      from assms(2) have "real j \<le> real (2 ^ 53)" by (rule of_nat_mono)
      then have "real j \<le> 2 ^ 53" by simp
      then show ?thesis by (simp add: mult_right_mono)
    qed
    ultimately show ?thesis by linarith
  qed
  show ?thesis
  proof (cases y rule: round64_cases)
    case (1 r')
    with r show ?thesis by (simp add: at_least_def)
  next
    case 2
    then show ?thesis by (simp add: at_least_def)
  next
    case 3
    with y0 show ?thesis by simp
  qed
qed

lemma round64_not_negative:
  assumes "0 \<le> y"
  shows "not_negative (round64 y)"
proof (cases y rule: round64_cases)
  case (1 r')
  have "0 \<le> y / pow2 (binade \<bar>y\<bar> - 52)" using assms by simp
  then have "of_int 0 \<le> y / pow2 (binade \<bar>y\<bar> - 52)" by simp
  then have "0 \<le> round_half_even (y / pow2 (binade \<bar>y\<bar> - 52))" by (rule round_half_even_ge)
  then have "0 \<le> r'" unfolding 1(2) by (intro mult_nonneg_nonneg) simp_all
  with 1(1) show ?thesis by (simp add: not_negative_def)
next
  case 2
  then show ?thesis by (simp add: not_negative_def)
next
  case 3
  with assms show ?thesis by simp
qed

lemma double_multiple:
  assumes "is_double (Fin x)"
  shows "\<exists>N::int. x = of_int N * pow2 (- 1074)"
proof -
  from assms have eq: "round64 x = Fin x" by simp
  let ?e = "binade \<bar>x\<bar>"
  let ?n = "round_half_even (x / pow2 (?e - 52))"
  from eq have x: "x = of_int ?n * pow2 (?e - 52)"
    by (cases x rule: round64_cases) simp_all
  from binade_range[of "\<bar>x\<bar>"] have e: "0 \<le> ?e + 1022" by linarith
  have "pow2 (?e - 52) = pow2 (?e + 1022) * pow2 (- 1074)"
    using pow2_add[of "?e + 1022" "- 1074"] by simp
  also have "pow2 (?e + 1022) = of_int (2 ^ nat (?e + 1022))"
    using e by (simp add: pow2_nat)
  finally have "x = of_int (?n * 2 ^ nat (?e + 1022)) * pow2 (- 1074)"
    using x by simp
  then show ?thesis by blast
qed

lemma doubles_apart:
  assumes "is_double (Fin p)" and "is_double (Fin t)" and "p < t"
  shows "pow2 (- 1074) \<le> t - p"
proof -
  from double_multiple[OF assms(1)] obtain P :: int where p: "p = of_int P * pow2 (- 1074)" by blast
  from double_multiple[OF assms(2)] obtain T :: int where t: "t = of_int T * pow2 (- 1074)" by blast
  from assms(3) have "of_int P * pow2 (- 1074) < of_int T * pow2 (- 1074)" by (simp add: p t)
  then have "(of_int P :: real) < of_int T" by (simp add: mult_less_cancel_right)
  then have "P + 1 \<le> T" by linarith
  then have "(of_int P :: real) + 1 \<le> of_int T" by linarith
  then have "(of_int P + 1) * pow2 (- 1074) \<le> of_int T * pow2 (- 1074)"
    by (rule mult_right_mono) simp
  then show ?thesis by (simp add: p t algebra_simps)
qed

lemma at_least_positive: "at_least (pow2 (- 1074)) n \<Longrightarrow> nless (Fin 0) n"
  by (cases n) (auto simp: at_least_def intro: less_le_trans[OF pow2_pos])

lemma nsub_low:
  assumes "is_double p" and "is_double t" and "nless p t"
  shows "at_least (pow2 (- 1074)) (nsub t p)"
proof (cases p)
  case p: (Fin pv)
  show ?thesis
  proof (cases t)
    case t: (Fin tv)
    from assms p t have "pow2 (- 1074) \<le> tv - pv"
      by (intro doubles_apart) simp_all
    then have "real 1 * pow2 (- 1074) \<le> tv - pv" by simp
    from round64_at_least[OF this] show ?thesis by (simp add: p t)
  qed (use assms p in \<open>simp_all add: at_least_def\<close>)
qed (use assms in \<open>cases t; simp_all add: at_least_def\<close>)+

lemma nadd_at_least:
  assumes "at_least (real k * pow2 (- 1074)) a" and "at_least (pow2 (- 1074)) c" and "Suc k \<le> 2 ^ 53"
  shows "at_least (real (Suc k) * pow2 (- 1074)) (nadd a c)"
proof (cases a)
  case a: (Fin av)
  show ?thesis
  proof (cases c)
    case c: (Fin cv)
    from assms(1,2) a c have "real (Suc k) * pow2 (- 1074) \<le> av + cv"
      by (simp add: at_least_def algebra_simps)
    from round64_at_least[OF this assms(3)] show ?thesis by (simp add: a c)
  qed (use assms a in \<open>simp_all add: at_least_def\<close>)
qed (use assms in \<open>cases c; simp_all add: at_least_def\<close>)+

lemma foldl_at_least:
  assumes "\<And>j. j \<in> set js \<Longrightarrow> at_least (pow2 (- 1074)) (g j)"
    and "at_least (real k * pow2 (- 1074)) acc" and "k + length js \<le> 2 ^ 53"
  shows "at_least (real (k + length js) * pow2 (- 1074)) (foldl (\<lambda>c j. nadd c (g j)) acc js)"
  using assms
proof (induction js arbitrary: k acc)
  case Nil
  then show ?case by simp
next
  case (Cons j js)
  have step: "at_least (real (Suc k) * pow2 (- 1074)) (nadd acc (g j))"
    by (rule nadd_at_least[OF Cons.prems(2)]) (use Cons.prems in simp_all)
  have "at_least (real (Suc k + length js) * pow2 (- 1074))
          (foldl (\<lambda>c j. nadd c (g j)) (nadd acc (g j)) js)"
    by (rule Cons.IH[OF _ step]) (use Cons.prems in simp_all)
  then show ?case by simp
qed

lemma ndiv_at_least:
  assumes "at_least (real m * pow2 (- 1074)) s" and "0 < m"
  shows "at_least (pow2 (- 1074)) (ndiv s (real m))"
proof (cases s)
  case (Fin sv)
  with assms have "real 1 * pow2 (- 1074) \<le> sv / real m"
    by (simp add: at_least_def pos_le_divide_eq mult.commute)
  from round64_at_least[OF this] Fin assms(2) show ?thesis by simp
qed (use assms in \<open>simp_all add: at_least_def\<close>)

lemma nmul_not_negative:
  assumes "at_least (pow2 (- 1074)) d" and "not_negative x"
  shows "not_negative (nmul d x)"
proof (cases d)
  case d: (Fin dv)
  with assms(1) have "pow2 (- 1074) \<le> dv" by (simp add: at_least_def)
  then have dv: "0 < dv" by (rule less_le_trans[OF pow2_pos])
  show ?thesis
  proof (cases x)
    case x: (Fin xv)
    with assms(2) have "0 \<le> xv" by (simp add: not_negative_def)
    with dv have "0 \<le> dv * xv" by simp
    from round64_not_negative[OF this] show ?thesis by (simp add: d x)
  qed (use assms d dv in \<open>simp_all add: not_negative_def\<close>)
next
  case PosInf
  with assms(2) show ?thesis by (cases x) (simp_all add: not_negative_def)
qed (use assms in \<open>simp_all add: at_least_def\<close>)

lemma nadd_not_negative:
  assumes "not_negative a" and "not_negative c"
  shows "not_negative (nadd a c)"
proof (cases a)
  case a: (Fin av)
  show ?thesis
  proof (cases c)
    case c: (Fin cv)
    with assms a have "0 \<le> av + cv" by (simp add: not_negative_def)
    from round64_not_negative[OF this] show ?thesis by (simp add: a c)
  qed (use assms a in \<open>simp_all add: not_negative_def\<close>)
qed (use assms in \<open>cases c; simp_all add: not_negative_def\<close>)+

lemma foldl_not_negative:
  assumes "\<And>j. j \<in> set js \<Longrightarrow> not_negative (g j)" and "not_negative acc"
  shows "not_negative (foldl (\<lambda>c j. nadd c (g j)) acc js)"
  using assms
proof (induction js arbitrary: acc)
  case Nil
  then show ?case by simp
next
  case (Cons j js)
  show ?case
    by (simp, rule Cons.IH) (use Cons.prems in \<open>simp_all add: nadd_not_negative\<close>)
qed

lemma ndiv_not_negative:
  assumes "not_negative s" and "0 \<le> d"
  shows "not_negative (ndiv s d)"
proof (cases s)
  case (Fin sv)
  with assms have "0 \<le> sv / d" by (simp add: not_negative_def)
  from round64_not_negative[OF this] Fin assms show ?thesis
    by (auto simp: not_negative_def)
qed (use assms in \<open>simp_all add: not_negative_def\<close>)

section \<open>The training loop\<close>

text \<open>
  Claim C1. For every model, every non-negative integer \<open>n\<close> of epochs, every learning
  rate and every pair of arrays, \<open>trainModel\<close> runs exactly \<open>n\<close> iterations, each one
  the four steps of \<open>spec_epoch\<close> in order (forward pass on the current model, average
  cost appended to the history, backward pass on the predictions of that forward pass,
  update of \<open>w\<close> and \<open>b\<close>), and returns the history, whose length is \<open>n\<close>.
\<close>

theorem trainModel_iterates:
  "trainModel model (real n) alpha xTrain yTrain =
     (snd ((spec_epoch alpha xTrain yTrain ^^ n) (model, [])),
      fst ((spec_epoch alpha xTrain yTrain ^^ n) (model, [])), xTrain, yTrain)
   \<and> length (fst (trainModel model (real n) alpha xTrain yTrain)) = n"
  by (simp add: trainModel_def train_loop_funpow spec_epoch_funpow_length)

text \<open>
  Claim C8. For every model, learning rate and sample set, training with
  \<open>epochs = 0\<close> returns an empty cost history and leaves \<open>model.w\<close> and
  \<open>model.b\<close> (and the two arrays) exactly as they were.
\<close>

theorem trainModel_zero_epochs:
  "trainModel model 0 alpha xTrain yTrain = ([], model, xTrain, yTrain)"
  by (simp add: trainModel_def train_loop_exit)

text \<open>
  Claim C9. Only \<open>trainModel\<close> changes the model. \<open>predict\<close> returns a value that
  depends on \<open>w\<close>, \<open>b\<close> and its argument only, and leaves the neuron as it was; the
  forward pass leaves the model and both arrays as they were; the backward pass leaves
  its three arrays as they were; \<open>trainModel\<close> leaves both arrays as they were. Within
  \<open>trainModel\<close> the parameters change once per iteration, at the update step: when
  the loop test fails the loop returns the model it holds, untouched, and the model that
  \<open>trainModel\<close> returns after \<open>n\<close> epochs is the given model with the update step
  \<open>spec_update\<close> applied \<open>n\<close> times, neither more nor less.
\<close>

theorem only_trainModel_mutates:
  "predict model x = (nadd (nmul x (w model)) (b model), model)
   \<and> snd (forwardPropagation model xTrain yTrain) = (model, xTrain, yTrain)
   \<and> snd (backwardPropagation predictions xTrain yTrain) = (predictions, xTrain, yTrain)
   \<and> snd (snd (trainModel model epochs alpha xTrain yTrain)) = (xTrain, yTrain)
   \<and> (\<not> real epoch < epochs \<longrightarrow>
        train_loop model epochs alpha xTrain yTrain epoch costHistory
          = (costHistory, model, xTrain, yTrain))
   \<and> fst (snd (trainModel model (real n) alpha xTrain yTrain))
        = (spec_update alpha xTrain yTrain ^^ n) model"
proof -
  have upd: "fst (spec_epoch alpha xTrain yTrain (m, h)) = spec_update alpha xTrain yTrain m" for m h
    by (simp add: spec_epoch_def spec_update_def Let_def split: prod.splits)
  have it: "fst ((spec_epoch alpha xTrain yTrain ^^ k) (m, h)) = (spec_update alpha xTrain yTrain ^^ k) m"
    for k m h
  proof (induction k)
    case 0
    show ?case by simp
  next
    case (Suc k)
    have "fst (spec_epoch alpha xTrain yTrain ((spec_epoch alpha xTrain yTrain ^^ k) (m, h)))
        = spec_update alpha xTrain yTrain (fst ((spec_epoch alpha xTrain yTrain ^^ k) (m, h)))"
      using upd[of "fst ((spec_epoch alpha xTrain yTrain ^^ k) (m, h))"
                   "snd ((spec_epoch alpha xTrain yTrain ^^ k) (m, h))"]
      by simp
    with Suc.IH show ?case by simp
  qed
  show ?thesis
    by (simp add: predict_def forwardPropagation_frame backwardPropagation_frame trainModel_def
          train_loop_frame train_loop_exit train_loop_funpow it)
qed

text \<open>
  The same at a model with \<open>w = 1\<close>, \<open>b = 0\<close>, the one sample \<open>(1, 3)\<close> and
  \<open>alpha = 1/2\<close>: the forward pass predicts 1, both deltas are 2, and one epoch ends with
  \<open>w = 2\<close>, \<open>b = 1\<close>.
\<close>

theorem only_trainModel_mutates_witness:
  "\<not> real 1 < 1
   \<and> predict \<lparr>w = Fin 1, b = Fin 0\<rparr> (Fin 2) = (Fin 2, \<lparr>w = Fin 1, b = Fin 0\<rparr>)
   \<and> snd (forwardPropagation \<lparr>w = Fin 1, b = Fin 0\<rparr> [Fin 1] [Fin 3])
       = (\<lparr>w = Fin 1, b = Fin 0\<rparr>, [Fin 1], [Fin 3])
   \<and> snd (backwardPropagation [Fin 1] [Fin 1] [Fin 3]) = ([Fin 1], [Fin 1], [Fin 3])
   \<and> train_loop \<lparr>w = Fin 1, b = Fin 0\<rparr> 1 (Fin (1 / 2)) [Fin 1] [Fin 3] 1 [Fin 2]
       = ([Fin 2], \<lparr>w = Fin 1, b = Fin 0\<rparr>, [Fin 1], [Fin 3])
   \<and> fst (snd (trainModel \<lparr>w = Fin 1, b = Fin 0\<rparr> (real 1) (Fin (1 / 2)) [Fin 1] [Fin 3]))
       = \<lparr>w = Fin 2, b = Fin 1\<rparr>"
  using only_trainModel_mutates[of "\<lparr>w = Fin 1, b = Fin 0\<rparr>" "Fin 2" "[Fin 1]" "[Fin 3]" "[Fin 1]"
          1 "Fin (1 / 2)" 1 "[Fin 2]" 1]
  by (simp add: spec_update_def forwardPropagation_eq backwardPropagation_eq predict_def
        elem_def Let_def)

section \<open>The forward and the backward pass\<close>

text \<open>
  Claim C2. For every model with parameters \<open>w\<close>, \<open>b\<close> and every sample set with as
  many inputs as targets, the forward pass returns the predictions
  \<open>inputs[i] * w + b\<close>, one for each input and in the order of the inputs, and as
  average cost the mean of the half squared errors
  \<open>(targets[i] - predictions[i])\<^sup>2 / 2\<close>: their sum \<open>fsum\<close> divided by the number \<open>m\<close>
  of samples. The operators are those of the program, so each is rounded, and the sum is
  taken in index order.
\<close>

theorem forwardPropagation_predictions_and_cost:
  assumes "length xTrain = length yTrain"
  shows "fst (forwardPropagation model xTrain yTrain) =
     (map (\<lambda>x. nadd (nmul x (w model)) (b model)) xTrain,
      ndiv (fsum (map (\<lambda>i. ndiv (npow (nsub (yTrain ! i)
                                    (nadd (nmul (xTrain ! i) (w model)) (b model))) 2) 2)
                   [0..<length xTrain]))
           (real (length xTrain)))"
proof -
  have preds: "map (\<lambda>j. fst (predict model (elem xTrain j))) [0..<length xTrain]
      = map (\<lambda>x. nadd (nmul x (w model)) (b model)) xTrain"
    by (rule nth_equalityI) (simp_all add: predict_def elem_def)
  have costs: "map (\<lambda>j. predictionCost (elem yTrain j) (fst (predict model (elem xTrain j))))
                 [0..<length xTrain]
      = map (\<lambda>i. ndiv (npow (nsub (yTrain ! i) (nadd (nmul (xTrain ! i) (w model)) (b model))) 2) 2)
          [0..<length xTrain]"
    using assms by (simp add: predictionCost_def predict_def elem_def)
  show ?thesis
    by (simp add: forwardPropagation_eq foldl_nadd_fsum preds costs)
qed

text \<open>
  With \<open>w = 1\<close>, \<open>b = 0\<close> and the samples \<open>(1, 3)\<close>, \<open>(2, 5)\<close>: the predictions are
  1 and 2, the costs 2 and 9/2, their sum 13/2, their mean 13/4.
\<close>

theorem forwardPropagation_predictions_and_cost_witness:
  "length [Fin 1, Fin 2] = length [Fin 3, Fin 5]
   \<and> fst (forwardPropagation \<lparr>w = Fin 1, b = Fin 0\<rparr> [Fin 1, Fin 2] [Fin 3, Fin 5])
       = ([Fin 1, Fin 2], Fin (13 / 4))"
proof -
  have "round64 (13 / 4) = Fin (13 / 4)"
    by (rule round64_exact[OF binade_eq, of 1 _ "13 * 2 ^ 49"]) (simp_all add: pow2_def)
  then show ?thesis
    using forwardPropagation_predictions_and_cost[of "[Fin 1, Fin 2]" "[Fin 3, Fin 5]"
            "\<lparr>w = Fin 1, b = Fin 0\<rparr>"]
    by (simp add: fsum_def upt_conv_Cons)
qed

text \<open>
  Claim C3. For every sample set and as many predictions, the backward pass returns
  \<open>averageDeltaB\<close>, the sum of the errors \<open>targets[i] - predictions[i]\<close> divided by
  \<open>m\<close>, and \<open>averageDeltaW\<close>, the sum of \<open>(targets[i] - predictions[i]) * inputs[i]\<close>
  divided by \<open>m\<close>, each sum pairing the three arrays by index. The operators are those
  of the program, so each is rounded, and the sums are taken in index order.
\<close>

theorem backwardPropagation_deltas:
  assumes "length xTrain = length yTrain" and "length predictions = length xTrain"
  shows "fst (backwardPropagation predictions xTrain yTrain) =
     (ndiv (fsum (map (\<lambda>i. nsub (yTrain ! i) (predictions ! i)) [0..<length xTrain]))
           (real (length xTrain)),
      ndiv (fsum (map (\<lambda>i. nmul (nsub (yTrain ! i) (predictions ! i)) (xTrain ! i))
                   [0..<length xTrain]))
           (real (length xTrain)))"
proof -
  have dB: "map (\<lambda>j. nsub (elem yTrain j) (elem predictions j)) [0..<length xTrain]
      = map (\<lambda>i. nsub (yTrain ! i) (predictions ! i)) [0..<length xTrain]"
    using assms by (simp add: elem_def)
  have dW: "map (\<lambda>j. nmul (nsub (elem yTrain j) (elem predictions j)) (elem xTrain j))
              [0..<length xTrain]
      = map (\<lambda>i. nmul (nsub (yTrain ! i) (predictions ! i)) (xTrain ! i)) [0..<length xTrain]"
    using assms by (simp add: elem_def)
  show ?thesis
    by (simp add: backwardPropagation_eq foldl_nadd_fsum dB dW)
qed

text \<open>
  With the predictions 1, 2 for the samples \<open>(1, 3)\<close>, \<open>(2, 5)\<close>: the errors are 2 and
  3, so \<open>averageDeltaB = 5/2\<close> and \<open>averageDeltaW = (2 * 1 + 3 * 2) / 2 = 4\<close>.
\<close>

theorem backwardPropagation_deltas_witness:
  "length [Fin 1, Fin 2] = length [Fin 3, Fin 5] \<and> length [Fin 1, Fin 2] = length [Fin 1, Fin 2]
   \<and> fst (backwardPropagation [Fin 1, Fin 2] [Fin 1, Fin 2] [Fin 3, Fin 5]) = (Fin (5 / 2), Fin 4)"
  using backwardPropagation_deltas[of "[Fin 1, Fin 2]" "[Fin 3, Fin 5]" "[Fin 1, Fin 2]"]
  by (simp add: fsum_def upt_conv_Cons)

section \<open>The sign of the deltas\<close>

text \<open>
  Claim C7, as stated, fails: with the one input \<open>-1\<close>, target 1 and prediction 0 the
  prediction is below the target, \<open>averageDeltaB\<close> is 1, and \<open>averageDeltaW\<close> is
  \<open>(1 - 0) * (-1) / 1 = -1\<close>, which is not positive.
\<close>

theorem backward_uniformly_low_counterexample:
  "length [Fin 0] = length [Fin (- 1)] \<and> length [Fin (- 1)] = length [Fin 1] \<and> [Fin (- 1)] \<noteq> []
   \<and> nless ([Fin 0] ! 0) ([Fin 1] ! 0)
   \<and> fst (backwardPropagation [Fin 0] [Fin (- 1)] [Fin 1]) = (Fin 1, Fin (- 1))
   \<and> \<not> nless (Fin 0) (Fin (- 1))"
  by (simp add: backwardPropagation_eq elem_def)

text \<open>
  Claim C7, amended. For every non-empty sample set and as many predictions, all of them
  doubles in arrays of fewer than \<open>2\<^sup>3\<^sup>2\<close> elements, with every prediction below
  its target: \<open>averageDeltaB\<close> is positive; and when no input is negative,
  \<open>averageDeltaW\<close> is not negative. (It need not be positive: a product can underflow to
  0, and an infinite error times the input 0 is \<^verbatim>\<open>NaN\<close>.)
\<close>

theorem backward_uniformly_low:
  assumes "length xTrain = length yTrain" and "length predictions = length xTrain"
    and "xTrain \<noteq> []" and "length xTrain < 2 ^ 32"
    and "list_all is_double predictions" and "list_all is_double yTrain"
    and "\<forall>i<length xTrain. nless (predictions ! i) (yTrain ! i)"
  shows "nless (Fin 0) (fst (fst (backwardPropagation predictions xTrain yTrain)))
       \<and> ((\<forall>i<length xTrain. \<not> nless (xTrain ! i) (Fin 0)) \<longrightarrow>
            \<not> nless (snd (fst (backwardPropagation predictions xTrain yTrain))) (Fin 0))"
proof -
  let ?m = "length xTrain"
  let ?d = "\<lambda>j. nsub (elem yTrain j) (elem predictions j)"
  have low: "at_least (pow2 (- 1074)) (?d j)" if "j \<in> set [0..<?m]" for j
  proof -
    from that have j: "j < ?m" by simp
    with assms(1,2,5,6) have "is_double (predictions ! j)" "is_double (yTrain ! j)"
      by (simp_all add: list_all_length)
    moreover from j assms(7) have "nless (predictions ! j) (yTrain ! j)" by simp
    ultimately have "at_least (pow2 (- 1074)) (nsub (yTrain ! j) (predictions ! j))"
      by (intro nsub_low)
    with j assms(1,2) show ?thesis by (simp add: elem_def)
  qed
  have big: "(2::nat) ^ 32 \<le> 2 ^ 53" by simp
  have "at_least (real (0 + length [0..<?m]) * pow2 (- 1074))
          (foldl (\<lambda>c j. nadd c (?d j)) (Fin 0) [0..<?m])"
    by (rule foldl_at_least[OF low]) (use assms(4) big in \<open>simp_all add: at_least_def\<close>)
  then have "at_least (real ?m * pow2 (- 1074)) (foldl (\<lambda>c j. nadd c (?d j)) (Fin 0) [0..<?m])"
    by simp
  from ndiv_at_least[OF this] assms(3)
  have "at_least (pow2 (- 1074)) (fst (fst (backwardPropagation predictions xTrain yTrain)))"
    by (simp add: backwardPropagation_eq)
  then have B: "nless (Fin 0) (fst (fst (backwardPropagation predictions xTrain yTrain)))"
    by (rule at_least_positive)
  have W: "\<not> nless (snd (fst (backwardPropagation predictions xTrain yTrain))) (Fin 0)"
    if nn: "\<forall>i<?m. \<not> nless (xTrain ! i) (Fin 0)"
  proof -
    have tm: "not_negative (nmul (?d j) (elem xTrain j))" if "j \<in> set [0..<?m]" for j
    proof -
      from that nn have "not_negative (elem xTrain j)" by (simp add: not_negative_def elem_def)
      with low[OF that] show ?thesis by (rule nmul_not_negative)
    qed
    have "not_negative (foldl (\<lambda>c j. nadd c (nmul (?d j) (elem xTrain j))) (Fin 0) [0..<?m])"
      by (rule foldl_not_negative[OF tm]) (simp_all add: not_negative_def)
    then have "not_negative (ndiv (foldl (\<lambda>c j. nadd c (nmul (?d j) (elem xTrain j))) (Fin 0) [0..<?m]) (real ?m))"
      by (rule ndiv_not_negative) simp
    then show ?thesis by (simp add: backwardPropagation_eq not_negative_def)
  qed
  from B W show ?thesis by blast
qed

text \<open>
  With the inputs 0, 1, the targets 5, 7 and the predictions 1, 2 every hypothesis holds;
  \<open>averageDeltaB\<close> is 9/2 and \<open>averageDeltaW\<close> is 5/2.
\<close>

theorem backward_uniformly_low_witness:
  "length [Fin 0, Fin 1] = length [Fin 5, Fin 7] \<and> length [Fin 1, Fin 2] = length [Fin 0, Fin 1]
   \<and> [Fin 0, Fin 1] \<noteq> [] \<and> length [Fin 0, Fin 1] < 2 ^ 32
   \<and> list_all is_double [Fin 1, Fin 2] \<and> list_all is_double [Fin 5, Fin 7]
   \<and> nless ([Fin 1, Fin 2] ! 0) ([Fin 5, Fin 7] ! 0) \<and> nless ([Fin 1, Fin 2] ! 1) ([Fin 5, Fin 7] ! 1)
   \<and> \<not> nless ([Fin 0, Fin 1] ! 0) (Fin 0) \<and> \<not> nless ([Fin 0, Fin 1] ! 1) (Fin 0)
   \<and> nless (Fin 0) (fst (fst (backwardPropagation [Fin 1, Fin 2] [Fin 0, Fin 1] [Fin 5, Fin 7])))
   \<and> \<not> nless (snd (fst (backwardPropagation [Fin 1, Fin 2] [Fin 0, Fin 1] [Fin 5, Fin 7]))) (Fin 0)
   \<and> fst (backwardPropagation [Fin 1, Fin 2] [Fin 0, Fin 1] [Fin 5, Fin 7]) = (Fin (9 / 2), Fin (5 / 2))"
proof -
  have h: "\<forall>i<length [Fin 0, Fin 1]. nless ([Fin 1, Fin 2] ! i) ([Fin 5, Fin 7] ! i)"
    by (simp add: less_Suc_eq)
  have n: "\<forall>i<length [Fin 0, Fin 1]. \<not> nless ([Fin 0, Fin 1] ! i) (Fin 0)"
    by (simp add: less_Suc_eq)
  have v: "fst (backwardPropagation [Fin 1, Fin 2] [Fin 0, Fin 1] [Fin 5, Fin 7]) = (Fin (9 / 2), Fin (5 / 2))"
    by (simp add: backwardPropagation_eq elem_def upt_conv_Cons)
  from backward_uniformly_low[of "[Fin 0, Fin 1]" "[Fin 5, Fin 7]" "[Fin 1, Fin 2]", OF _ _ _ _ _ _ h] n v
  show ?thesis by simp
qed

section \<open>Reads in range, divisor not zero\<close>

text \<open>
  Claim C10. Neither pass validates its arguments: on empty arrays both return, with no
  fault raised, \<^verbatim>\<open>NaN\<close>. When the inputs are as many as the targets (and, for the
  backward pass, as the predictions) and there is at least one sample, the checked
  functions return what the unchecked ones return: every read \<open>xTrain[i]\<close>,
  \<open>yTrain[i]\<close>, \<open>predictions[i]\<close> is in range and the divisor \<open>m\<close> is not zero.
\<close>

theorem no_out_of_range_no_zero_division:
  "(length xTrain = length yTrain \<and> xTrain \<noteq> [] \<longrightarrow>
      forwardPropagation_checked model xTrain yTrain = Inr (forwardPropagation model xTrain yTrain))
   \<and> (length xTrain = length yTrain \<and> length predictions = length xTrain \<and> xTrain \<noteq> [] \<longrightarrow>
      backwardPropagation_checked predictions xTrain yTrain
        = Inr (backwardPropagation predictions xTrain yTrain))
   \<and> fst (forwardPropagation model [] []) = ([], NaN)
   \<and> fst (backwardPropagation [] [] []) = (NaN, NaN)"
proof -
  have f: "forward_loop_checked model xTrain yTrain (length xTrain) 0 (Fin 0) []
      = Inr (forward_loop model xTrain yTrain (length xTrain) 0 (Fin 0) [])"
    if "length xTrain = length yTrain"
    by (rule forward_loop_checked_in_bounds) (simp_all add: that)
  have b: "backward_loop_checked predictions xTrain yTrain (length xTrain) 0 (Fin 0) (Fin 0)
      = Inr (backward_loop predictions xTrain yTrain (length xTrain) 0 (Fin 0) (Fin 0))"
    if "length xTrain = length yTrain" and "length predictions = length xTrain"
    by (rule backward_loop_checked_in_bounds) (simp_all add: that)
  have fwd: "forwardPropagation_checked model xTrain yTrain = Inr (forwardPropagation model xTrain yTrain)"
    if "length xTrain = length yTrain" and "xTrain \<noteq> []"
    using that(2)
    by (simp add: forwardPropagation_checked_def forwardPropagation_def f[OF that(1)]
          ndiv_checked_def Let_def split: prod.splits)
  have bwd: "backwardPropagation_checked predictions xTrain yTrain
        = Inr (backwardPropagation predictions xTrain yTrain)"
    if "length xTrain = length yTrain" and "length predictions = length xTrain" and "xTrain \<noteq> []"
    using that(3)
    by (simp add: backwardPropagation_checked_def backwardPropagation_def b[OF that(1,2)]
          ndiv_checked_def Let_def split: prod.splits)
  have e1: "fst (forwardPropagation model [] []) = ([], NaN)"
    by (simp add: forwardPropagation_eq)
  have e2: "fst (backwardPropagation [] [] []) = (NaN, NaN)"
    by (simp add: backwardPropagation_eq)
  from fwd bwd e1 e2 show ?thesis by blast
qed

text \<open>The same at the one sample \<open>(1, 3)\<close> with the prediction 1.\<close>

theorem no_out_of_range_no_zero_division_witness:
  "length [Fin 1] = length [Fin 3] \<and> length [Fin 1] = length [Fin 1] \<and> [Fin 1] \<noteq> []
   \<and> forwardPropagation_checked \<lparr>w = Fin 1, b = Fin 0\<rparr> [Fin 1] [Fin 3]
       = Inr (([Fin 1], Fin 2), \<lparr>w = Fin 1, b = Fin 0\<rparr>, [Fin 1], [Fin 3])
   \<and> backwardPropagation_checked [Fin 1] [Fin 1] [Fin 3]
       = Inr ((Fin 2, Fin 2), [Fin 1], [Fin 1], [Fin 3])"
  using no_out_of_range_no_zero_division[of "[Fin 1]" "[Fin 3]" "\<lparr>w = Fin 1, b = Fin 0\<rparr>" "[Fin 1]"]
  by (simp add: forwardPropagation_eq backwardPropagation_eq predict_def predictionCost_def elem_def)

section \<open>The data sets\<close>

text \<open>
  Claim C6. \<open>generateDataSets\<close> takes no argument and draws no random number. Its
  training inputs are the 100 integers 0, 1, ..., 99 in increasing order, its test inputs
  the 100 numbers 0.5, 1.5, ..., 99.5, each target is \<open>input * 1.8 + 32\<close> as the program
  computes it (the literal 1.8 is the double nearest to 18/10, and the product and the
  sum are rounded), and no test input is a training input.
\<close>

theorem generateDataSets_contents:
  "generateDataSets =
     (map (\<lambda>k. Fin (real k)) [0..<100],
      map (\<lambda>k. Fin (real k + 1 / 2)) [0..<100],
      map (\<lambda>k. nadd (nmul (Fin (real k)) (round64 1.8)) (Fin 32)) [0..<100],
      map (\<lambda>k. nadd (nmul (Fin (real k + 1 / 2)) (round64 1.8)) (Fin 32)) [0..<100])
   \<and> set (fst (snd generateDataSets)) \<inter> set (fst generateDataSets) = {}"
proof -
  have eq: "generateDataSets =
     (map (\<lambda>k. Fin (real k)) [0..<100],
      map (\<lambda>k. Fin (real k + 1 / 2)) [0..<100],
      map (\<lambda>k. nadd (nmul (Fin (real k)) (round64 1.8)) (Fin 32)) [0..<100],
      map (\<lambda>k. nadd (nmul (Fin (real k + 1 / 2)) (round64 1.8)) (Fin 32)) [0..<100])"
    unfolding generateDataSets_eq celsiusToFahrenheit_def W_def B_def by simp
  have ne: "real j + 1 / 2 \<noteq> real k" for j k :: nat
  proof
    assume "real j + 1 / 2 = real k"
    then have "real (2 * j + 1) = real (2 * k)" by simp
    then have "2 * j + 1 = 2 * k" by (simp only: of_nat_eq_iff)
    then show False by presburger
  qed
  have disj: "set (map (\<lambda>k. Fin (real k + 1 / 2)) [0..<100]) \<inter> set (map (\<lambda>k. Fin (real k)) [0..<100]) = {}"
    using ne by auto
  show ?thesis
    by (rule conjI[OF eq]) (simp only: eq fst_conv snd_conv disj)
qed

section \<open>Rounding errors\<close>

text \<open>
  A result of magnitude at most \<open>M\<close> (with \<open>1 \<le> M \<le> 2\<^sup>1\<^sup>0\<^sup>0\<^sup>0\<close>) is finite after
  rounding and within \<open>M / 2\<^sup>5\<^sup>2\<close> of the exact value; the same holds of each operator
  on finite operands, and the errors of a left-to-right sum add up.
\<close>

lemma round64_error:
  assumes "\<bar>y\<bar> \<le> M" and "1 \<le> M" and "M \<le> 2 ^ 1000"
  shows "\<exists>r. round64 y = Fin r \<and> \<bar>r - y\<bar> \<le> M / 2 ^ 52"
proof -
  let ?e = "binade \<bar>y\<bar>"
  let ?u = "pow2 (?e - 52)"
  let ?n = "round_half_even (y / ?u)"
  let ?r = "of_int ?n * ?u"
  have "\<bar>of_int ?n - y / ?u\<bar> \<le> 1 / 2" by (rule round_half_even_error)
  then have "\<bar>of_int ?n - y / ?u\<bar> * ?u \<le> 1 / 2 * ?u"
    by (rule mult_right_mono) simp
  moreover have "\<bar>of_int ?n - y / ?u\<bar> * ?u = \<bar>?r - y\<bar>"
  proof -
    have "\<bar>of_int ?n - y / ?u\<bar> * ?u = \<bar>(of_int ?n - y / ?u) * ?u\<bar>"
      by (simp add: abs_mult)
    also have "(of_int ?n - y / ?u) * ?u = ?r - y"
      by (simp add: algebra_simps)
    finally show ?thesis .
  qed
  ultimately have half: "\<bar>?r - y\<bar> \<le> ?u / 2" by simp
  have u: "?u \<le> M / 2 ^ 52"
  proof (cases "?e = - 1022")
    case True
    have "pow2 (- 1074) \<le> pow2 (- 52)" by (rule pow2_mono) simp
    also have "pow2 (- 52) = 1 / 2 ^ 52" by (simp add: pow2_def)
    also have "\<dots> \<le> M / 2 ^ 52" using assms(2) by (simp add: divide_right_mono)
    finally show ?thesis using True by simp
  next
    case False
    with binade_lower[of "\<bar>y\<bar>"] have "pow2 ?e \<le> \<bar>y\<bar>" by simp
    with assms(1) have "pow2 ?e \<le> M" by linarith
    moreover have "pow2 ?e = ?u * 2 ^ 52"
      using pow2_add[of "?e - 52" 52] by (simp add: pow2_nat)
    ultimately show ?thesis by (simp add: pos_le_divide_eq)
  qed
  have Mpos: "0 \<le> M" using assms(2) by linarith
  from u have u2: "?u / 2 \<le> M / 2 ^ 52"
    using pow2_pos[of "?e - 52"] by linarith
  with half have err: "\<bar>?r - y\<bar> \<le> M / 2 ^ 52" by linarith
  have "M / 2 ^ 52 \<le> M" using Mpos by (simp add: divide_le_eq mult_le_cancel_left1)
  with err assms(1) have "\<bar>?r\<bar> \<le> 2 * M" by linarith
  also have "\<dots> \<le> 2 * 2 ^ 1000" using assms(3) by simp
  also have "\<dots> < (2::real) ^ 1024" by simp
  finally have "\<not> 2 ^ 1024 \<le> \<bar>?r\<bar>" by simp
  then have "round64 y = Fin ?r" by (simp add: round64_def Let_def)
  with err show ?thesis by blast
qed

lemma nadd_error:
  assumes "\<bar>x + y\<bar> \<le> M" and "1 \<le> M" and "M \<le> 2 ^ 1000"
  obtains r where "nadd (Fin x) (Fin y) = Fin r" and "\<bar>r - (x + y)\<bar> \<le> M / 2 ^ 52"
  using round64_error[OF assms] by auto

lemma nsub_error:
  assumes "\<bar>x - y\<bar> \<le> M" and "1 \<le> M" and "M \<le> 2 ^ 1000"
  obtains r where "nsub (Fin x) (Fin y) = Fin r" and "\<bar>r - (x - y)\<bar> \<le> M / 2 ^ 52"
  using round64_error[OF assms] by auto

lemma nmul_error:
  assumes "\<bar>x * y\<bar> \<le> M" and "1 \<le> M" and "M \<le> 2 ^ 1000"
  obtains r where "nmul (Fin x) (Fin y) = Fin r" and "\<bar>r - x * y\<bar> \<le> M / 2 ^ 52"
  using round64_error[OF assms] by auto

lemma ndiv_error:
  assumes "\<bar>x / d\<bar> \<le> M" and "1 \<le> M" and "M \<le> 2 ^ 1000" and "d \<noteq> 0"
  obtains r where "ndiv (Fin x) d = Fin r" and "\<bar>r - x / d\<bar> \<le> M / 2 ^ 52"
  using round64_error[OF assms(1,2,3)] assms(4) by auto

lemma abs_mult_le:
  fixes x y :: real
  assumes "\<bar>x\<bar> \<le> p" and "\<bar>y\<bar> \<le> q"
  shows "\<bar>x * y\<bar> \<le> p * q"
proof -
  have "\<bar>x * y\<bar> = \<bar>x\<bar> * \<bar>y\<bar>" by (rule abs_mult)
  also have "\<dots> \<le> p * q" by (rule mult_mono) (use assms in simp_all)
  finally show ?thesis .
qed

lemma foldl_nadd_error:
  fixes G D M :: real
  assumes "\<And>j. j \<in> set js \<Longrightarrow> g j = Fin (v j) \<and> \<bar>v j\<bar> \<le> G"
    and "\<bar>a\<bar> \<le> real k * (G + D)"
    and "real (k + length js) * (G + D) \<le> M" and "1 \<le> M" and "M \<le> 2 ^ 1000"
    and "M / 2 ^ 52 \<le> D" and "0 \<le> G"
  shows "\<exists>s. foldl (\<lambda>c j. nadd c (g j)) (Fin a) js = Fin s
           \<and> \<bar>s - (a + sum_list (map v js))\<bar> \<le> real (length js) * (M / 2 ^ 52)
           \<and> \<bar>s\<bar> \<le> real (k + length js) * (G + D)"
  using assms(1,2,3)
proof (induction js arbitrary: a k)
  case Nil
  then show ?case by simp
next
  case (Cons j js)
  have "0 \<le> M / 2 ^ 52" using assms(4) by simp
  with assms(6) have D0: "0 \<le> D" by linarith
  have GD: "0 \<le> G + D" using D0 assms(7) by simp
  from Cons.prems(1)[of j] have gj: "g j = Fin (v j)" and vj: "\<bar>v j\<bar> \<le> G" by simp_all
  have "real (Suc k) * (G + D) \<le> real (k + length (j # js)) * (G + D)"
    by (rule mult_right_mono[OF _ GD]) simp
  with Cons.prems(3) have k1: "real (Suc k) * (G + D) \<le> M" by linarith
  have "\<bar>a + v j\<bar> \<le> real k * (G + D) + G" using Cons.prems(2) vj by linarith
  also have "\<dots> \<le> real (Suc k) * (G + D)" using D0 by (simp add: algebra_simps)
  finally have av: "\<bar>a + v j\<bar> \<le> real (Suc k) * (G + D) - D + D" by simp
  have avM: "\<bar>a + v j\<bar> \<le> M"
    using av k1 by linarith
  from nadd_error[OF avM assms(4,5)] obtain a' where
    a': "nadd (Fin a) (Fin (v j)) = Fin a'" and e: "\<bar>a' - (a + v j)\<bar> \<le> M / 2 ^ 52" by blast
  have a'b: "\<bar>a'\<bar> \<le> real (Suc k) * (G + D)"
  proof -
    have "\<bar>a'\<bar> \<le> \<bar>a + v j\<bar> + M / 2 ^ 52" using e by linarith
    also have "\<dots> \<le> real k * (G + D) + G + D"
      using Cons.prems(2) vj assms(6) by linarith
    also have "\<dots> = real (Suc k) * (G + D)" by (simp add: algebra_simps)
    finally show ?thesis .
  qed
  have "\<exists>s. foldl (\<lambda>c j. nadd c (g j)) (Fin a') js = Fin s
           \<and> \<bar>s - (a' + sum_list (map v js))\<bar> \<le> real (length js) * (M / 2 ^ 52)
           \<and> \<bar>s\<bar> \<le> real (Suc k + length js) * (G + D)"
    by (rule Cons.IH[OF _ a'b]) (use Cons.prems in simp_all)
  then obtain s where s: "foldl (\<lambda>c j. nadd c (g j)) (Fin a') js = Fin s"
    and se: "\<bar>s - (a' + sum_list (map v js))\<bar> \<le> real (length js) * (M / 2 ^ 52)"
    and sb: "\<bar>s\<bar> \<le> real (Suc k + length js) * (G + D)" by blast
  have "foldl (\<lambda>c j. nadd c (g j)) (Fin a) (j # js) = Fin s"
    using a' s by (simp add: gj)
  moreover have "\<bar>s - (a + sum_list (map v (j # js)))\<bar> \<le> real (length (j # js)) * (M / 2 ^ 52)"
  proof -
    have 1: "real (length (j # js)) * (M / 2 ^ 52) = real (length js) * (M / 2 ^ 52) + M / 2 ^ 52"
      by (simp add: algebra_simps)
    have 2: "sum_list (map v (j # js)) = v j + sum_list (map v js)" by simp
    show ?thesis unfolding 1 2 using se e by linarith
  qed
  moreover have "\<bar>s\<bar> \<le> real (k + length (j # js)) * (G + D)"
    using sb by simp
  ultimately show ?case by blast
qed

lemma sum_list_upt: "sum_list (map f [0..<m]) = (\<Sum>i<m. f i)"
  by (simp add: interv_sum_list_conv_sum_set_nat atLeast0LessThan)

lemma product_close:
  fixes x y x0 y0 :: real
  assumes "\<bar>x - x0\<bar> \<le> ex" and "\<bar>y - y0\<bar> \<le> ey" and "\<bar>y\<bar> \<le> my" and "\<bar>x0\<bar> \<le> mx"
  shows "\<bar>x * y - x0 * y0\<bar> \<le> ex * my + mx * ey"
proof -
  have "x * y - x0 * y0 = (x - x0) * y + x0 * (y - y0)" by (simp add: algebra_simps)
  then have "\<bar>x * y - x0 * y0\<bar> \<le> \<bar>(x - x0) * y\<bar> + \<bar>x0 * (y - y0)\<bar>"
    by (simp only: abs_triangle_ineq)
  also have "\<dots> \<le> ex * my + mx * ey"
    by (intro add_mono abs_mult_le assms)
  finally show ?thesis .
qed

section \<open>Training on the generated training set\<close>

text \<open>
  With \<open>p = 1.8 - w\<close> and \<open>q = 32 - b\<close> the error of a model, one epoch on the
  generated training set is, in exact arithmetic, a linear map of \<open>(p, q)\<close> that shrinks
  \<open>p\<^sup>2 + q\<^sup>2\<close> by the factor 3999/4000. The program's epoch differs from it by the
  rounding of the literals, of the 100 targets and of every operation of the two passes and
  of the update; as long as \<open>p\<^sup>2 + q\<^sup>2 \<le> 1000\<close> every intermediate result is finite and
  the new \<open>w\<close> and \<open>b\<close> are within \<open>2\<^sup>-\<^sup>2\<^sup>9\<close> of the exact ones.
\<close>

lemma energy_bounds:
  fixes p q :: real
  assumes "p\<^sup>2 + q\<^sup>2 \<le> 1000"
  shows "\<bar>p\<bar> \<le> 32" and "\<bar>q\<bar> \<le> 32"
proof -
  have "0 \<le> p\<^sup>2" "0 \<le> q\<^sup>2" by simp_all
  with assms have "p\<^sup>2 \<le> 1024" "q\<^sup>2 \<le> 1024" by linarith+
  then have "p\<^sup>2 \<le> 32\<^sup>2" "q\<^sup>2 \<le> 32\<^sup>2" by simp_all
  then show "\<bar>p\<bar> \<le> 32" and "\<bar>q\<bar> \<le> 32"
    using abs_le_square_iff[of p 32] abs_le_square_iff[of q 32] by simp_all
qed

lemma W_value: "\<exists>wv. W = Fin wv \<and> \<bar>wv - 18 / 10\<bar> \<le> 2 / 2 ^ 52"
  using round64_error[of "18 / 10" 2] by (simp add: W_def)

lemma target_error:
  assumes "k < 100"
  shows "\<exists>t. celsiusToFahrenheit (Fin (real k)) = Fin t
           \<and> \<bar>t - (18 / 10 * real k + 32)\<bar> \<le> 1 / 2 ^ 42"
proof -
  obtain wv where W: "W = Fin wv" and wv: "\<bar>wv - 18 / 10\<bar> \<le> 2 / 2 ^ 52"
    using W_value by blast
  have k: "\<bar>real k\<bar> \<le> 100" using assms by simp
  have k0: "\<bar>real k - real k\<bar> \<le> 0" by simp
  have n1: "(2 :: real) / 2 ^ 52 \<le> 1 / 10" by simp
  have wv2: "\<bar>wv\<bar> \<le> 2" using wv n1 by linarith
  have w0: "\<bar>18 / 10 :: real\<bar> \<le> 2" by simp
  have "\<bar>real k * wv\<bar> \<le> 100 * 2" by (rule abs_mult_le[OF k wv2])
  then have m: "\<bar>real k * wv\<bar> \<le> 256" by linarith
  from nmul_error[OF m] obtain q where q: "nmul (Fin (real k)) (Fin wv) = Fin q"
    and qe: "\<bar>q - real k * wv\<bar> \<le> 256 / 2 ^ 52" by auto
  have qw: "\<bar>real k * wv - real k * (18 / 10)\<bar> \<le> 0 * 2 + 100 * (2 / 2 ^ 52)"
    by (rule product_close[OF k0 wv wv2 k])
  have n2: "256 / 2 ^ 52 + (0 * 2 + 100 * (2 / 2 ^ 52)) \<le> (456 :: real) / 2 ^ 52" by simp
  have q2: "\<bar>q - real k * (18 / 10)\<bar> \<le> 456 / 2 ^ 52" using qe qw n2 by linarith
  have kw: "\<bar>real k * (18 / 10)\<bar> \<le> 100 * 2" by (rule abs_mult_le[OF k w0])
  have n3: "(456 :: real) / 2 ^ 52 \<le> 1" by simp
  have "\<bar>q + 32\<bar> \<le> 512" using q2 kw n3 by linarith
  from nadd_error[OF this] obtain t where t: "nadd (Fin q) (Fin 32) = Fin t"
    and te: "\<bar>t - (q + 32)\<bar> \<le> 512 / 2 ^ 52" by auto
  have "celsiusToFahrenheit (Fin (real k)) = Fin t"
    using q t by (simp add: celsiusToFahrenheit_def W B_def)
  moreover have "\<bar>t - (18 / 10 * real k + 32)\<bar> \<le> 1 / 2 ^ 42"
  proof -
    have n4: "512 / 2 ^ 52 + 456 / 2 ^ 52 \<le> (1 :: real) / 2 ^ 42" by simp
    show ?thesis using te q2 n4 by linarith
  qed
  ultimately show ?thesis by blast
qed

lemma sample_terms:
  assumes "k < 100" and "(18 / 10 - u)\<^sup>2 + (32 - v)\<^sup>2 \<le> 1000"
  shows "\<exists>d e. nsub (celsiusToFahrenheit (Fin (real k))) (nadd (nmul (Fin (real k)) (Fin u)) (Fin v)) = Fin d
           \<and> \<bar>d - ((18 / 10 - u) * real k + (32 - v))\<bar> \<le> 1 / 2 ^ 37 \<and> \<bar>d\<bar> \<le> 4096
           \<and> nmul (Fin d) (Fin (real k)) = Fin e
           \<and> \<bar>e - ((18 / 10 - u) * (real k)\<^sup>2 + (32 - v) * real k)\<bar> \<le> 1 / 2 ^ 29
           \<and> \<bar>e\<bar> \<le> 2 ^ 19"
proof -
  let ?delta = "(18 / 10 - u) * real k + (32 - v)"
  from energy_bounds[OF assms(2)] have pu: "\<bar>18 / 10 - u\<bar> \<le> 32" and pv: "\<bar>32 - v\<bar> \<le> 32" .
  have u: "\<bar>u\<bar> \<le> 34" using pu by linarith
  have v: "\<bar>v\<bar> \<le> 64" using pv by linarith
  have k: "\<bar>real k\<bar> \<le> 99" using assms(1) by simp
  have k0: "\<bar>real k - real k\<bar> \<le> 0" by simp
  obtain t where t: "celsiusToFahrenheit (Fin (real k)) = Fin t"
    and te: "\<bar>t - (18 / 10 * real k + 32)\<bar> \<le> 1 / 2 ^ 42"
    using target_error[OF assms(1)] by blast
  have ku: "\<bar>real k * u\<bar> \<le> 99 * 34" by (rule abs_mult_le[OF k u])
  then have "\<bar>real k * u\<bar> \<le> 4096" by linarith
  from nmul_error[OF this] obtain m where m: "nmul (Fin (real k)) (Fin u) = Fin m"
    and me: "\<bar>m - real k * u\<bar> \<le> 4096 / 2 ^ 52" by auto
  have n1: "(4096 :: real) / 2 ^ 52 \<le> 1" by simp
  have "\<bar>m + v\<bar> \<le> 8192" using me ku v n1 by linarith
  from nadd_error[OF this] obtain p where p: "nadd (Fin m) (Fin v) = Fin p"
    and pe: "\<bar>p - (m + v)\<bar> \<le> 8192 / 2 ^ 52" by auto
  have n2: "8192 / 2 ^ 52 + 4096 / 2 ^ 52 \<le> (1 :: real) / 2 ^ 38" by simp
  have pe2: "\<bar>p - (real k * u + v)\<bar> \<le> 1 / 2 ^ 38" using pe me n2 by linarith
  have "\<bar>(18 / 10 - u) * real k\<bar> \<le> 32 * 99" by (rule abs_mult_le[OF pu k])
  with pv have db: "\<bar>?delta\<bar> \<le> 3200" by linarith
  have e1: "(t - p) - ?delta = (t - (18 / 10 * real k + 32)) - (p - (real k * u + v))"
    by (simp add: algebra_simps)
  have tp: "\<bar>(t - p) - ?delta\<bar> \<le> 1 / 2 ^ 42 + 1 / 2 ^ 38"
    unfolding e1 using te pe2 by linarith
  have n3: "(1 :: real) / 2 ^ 42 + 1 / 2 ^ 38 \<le> 1" by simp
  have "\<bar>t - p\<bar> \<le> 4096" using tp db n3 by linarith
  from nsub_error[OF this] obtain d where d: "nsub (Fin t) (Fin p) = Fin d"
    and de: "\<bar>d - (t - p)\<bar> \<le> 4096 / 2 ^ 52" by auto
  have n4: "4096 / 2 ^ 52 + (1 / 2 ^ 42 + 1 / 2 ^ 38) \<le> (1 :: real) / 2 ^ 37" by simp
  have de2: "\<bar>d - ?delta\<bar> \<le> 1 / 2 ^ 37" using de tp n4 by linarith
  have n5: "(1 :: real) / 2 ^ 37 \<le> 1" by simp
  have dm: "\<bar>d\<bar> \<le> 4096" using de2 db n5 by linarith
  have dk: "\<bar>d * real k\<bar> \<le> 4096 * 99" by (rule abs_mult_le[OF dm k])
  have n6: "(4096 :: real) * 99 \<le> 2 ^ 19" by simp
  have "\<bar>d * real k\<bar> \<le> 2 ^ 19" using dk n6 by linarith
  from nmul_error[OF this] obtain e where e: "nmul (Fin d) (Fin (real k)) = Fin e"
    and ee: "\<bar>e - d * real k\<bar> \<le> 2 ^ 19 / 2 ^ 52" by auto
  have dd: "\<bar>d * real k - ?delta * real k\<bar> \<le> 1 / 2 ^ 37 * 99 + 3200 * 0"
    by (rule product_close[OF de2 k0 k db])
  have e2: "?delta * real k = (18 / 10 - u) * (real k)\<^sup>2 + (32 - v) * real k"
    by (simp add: algebra_simps power2_eq_square)
  have n7: "2 ^ 19 / 2 ^ 52 + (1 / 2 ^ 37 * 99 + 3200 * 0) \<le> (1 :: real) / 2 ^ 29" by simp
  have ee2: "\<bar>e - ((18 / 10 - u) * (real k)\<^sup>2 + (32 - v) * real k)\<bar> \<le> 1 / 2 ^ 29"
    using ee dd n7 unfolding e2 by linarith
  have n8: "4096 * 99 + 2 ^ 19 / 2 ^ 52 \<le> (2 :: real) ^ 19" by simp
  have em: "\<bar>e\<bar> \<le> 2 ^ 19" using ee dk n8 by linarith
  have "nsub (celsiusToFahrenheit (Fin (real k))) (nadd (nmul (Fin (real k)) (Fin u)) (Fin v)) = Fin d"
    using m p d by (simp add: t)
  with de2 dm e ee2 em show ?thesis by blast
qed

lemma sum_upto_real: "(\<Sum>i<n. real i) = real n * (real n - 1) / 2"
  by (induction n) (simp_all add: field_simps)

lemma sum_squares_upto_real: "(\<Sum>i<n. (real i)\<^sup>2) = (real n - 1) * real n * (2 * real n - 1) / 6"
  by (induction n) (simp_all add: field_simps power2_eq_square)

lemma sum_close:
  fixes f g :: "nat \<Rightarrow> real"
  assumes "\<And>j. j < n \<Longrightarrow> \<bar>f j - g j\<bar> \<le> c"
  shows "\<bar>(\<Sum>j<n. f j) - (\<Sum>j<n. g j)\<bar> \<le> real n * c"
proof -
  have "\<bar>(\<Sum>j<n. f j) - (\<Sum>j<n. g j)\<bar> = \<bar>\<Sum>j<n. (f j - g j)\<bar>"
    by (simp add: sum_subtractf)
  also have "\<dots> \<le> (\<Sum>j<n. \<bar>f j - g j\<bar>)" by (rule sum_abs)
  also have "\<dots> \<le> (\<Sum>j<n. c)" by (rule sum_mono) (simp add: assms)
  also have "\<dots> = real n * c" by simp
  finally show ?thesis .
qed

lemma fold_upt_error:
  fixes G M :: real
  assumes "\<And>j. j < n \<Longrightarrow> g j = Fin (v j) \<and> \<bar>v j\<bar> \<le> G"
    and "real n * (G + 1) \<le> M" and "1 \<le> M" and "M \<le> 2 ^ 52" and "0 \<le> G"
  shows "\<exists>s. foldl (\<lambda>c j. nadd c (g j)) (Fin 0) [0..<n] = Fin s
           \<and> \<bar>s - (\<Sum>j<n. v j)\<bar> \<le> real n * (M / 2 ^ 52)
           \<and> \<bar>s\<bar> \<le> real n * (G + 1)"
proof -
  have 1: "\<And>j. j \<in> set [0..<n] \<Longrightarrow> g j = Fin (v j) \<and> \<bar>v j\<bar> \<le> G"
    using assms(1) by simp
  have 2: "\<bar>0 :: real\<bar> \<le> real 0 * (G + 1)" by simp
  have 3: "real (0 + length [0..<n]) * (G + 1) \<le> M" using assms(2) by simp
  have "(2 :: real) ^ 52 \<le> 2 ^ 1000" by simp
  with assms(4) have 5: "M \<le> 2 ^ 1000" by linarith
  have 6: "M / 2 ^ 52 \<le> 1" using assms(3,4) by simp
  from foldl_nadd_error[of "[0..<n]" g v G 0 0 1 M, OF 1 2 3 assms(3) 5 6 assms(5)]
  show ?thesis by (simp only: sum_list_upt length_upt add_0 diff_zero)
qed

lemma training_deltas_error:
  assumes inv: "(18 / 10 - u)\<^sup>2 + (32 - v)\<^sup>2 \<le> 1000"
  shows "\<exists>dB dW.
      fst (backwardPropagation
             (map (\<lambda>j. fst (predict \<lparr>w = Fin u, b = Fin v\<rparr> (elem (map (\<lambda>k. Fin (real k)) [0..<100]) j))) [0..<100])
             (map (\<lambda>k. Fin (real k)) [0..<100])
             (map (\<lambda>k. celsiusToFahrenheit (Fin (real k))) [0..<100]))
        = (Fin dB, Fin dW)
    \<and> \<bar>dB - ((18 / 10 - u) * 4950 + (32 - v) * 100) / 100\<bar> \<le> 1 / 2 ^ 30
    \<and> \<bar>dW - ((18 / 10 - u) * 328350 + (32 - v) * 4950) / 100\<bar> \<le> 1 / 2 ^ 23
    \<and> \<bar>dB\<bar> \<le> 8192 \<and> \<bar>dW\<bar> \<le> 2 ^ 20"
proof -
  let ?X = "map (\<lambda>k. Fin (real k)) [0..<100]"
  let ?Y = "map (\<lambda>k. celsiusToFahrenheit (Fin (real k))) [0..<100]"
  let ?P = "map (\<lambda>j. fst (predict \<lparr>w = Fin u, b = Fin v\<rparr> (elem ?X j))) [0..<100]"
  let ?dB = "\<lambda>j. (18 / 10 - u) * real j + (32 - v)"
  let ?dW = "\<lambda>j. (18 / 10 - u) * (real j)\<^sup>2 + (32 - v) * real j"
  define g where "g j = nsub (celsiusToFahrenheit (Fin (real j))) (nadd (nmul (Fin (real j)) (Fin u)) (Fin v))" for j
  define d where "d j = (case g j of Fin r \<Rightarrow> r | _ \<Rightarrow> 0)" for j
  define h where "h j = nmul (Fin (d j)) (Fin (real j))" for j
  define e where "e j = (case h j of Fin r \<Rightarrow> r | _ \<Rightarrow> 0)" for j
  have tm: "g j = Fin (d j) \<and> \<bar>d j - ?dB j\<bar> \<le> 1 / 2 ^ 37 \<and> \<bar>d j\<bar> \<le> 4096
      \<and> h j = Fin (e j) \<and> \<bar>e j - ?dW j\<bar> \<le> 1 / 2 ^ 29 \<and> \<bar>e j\<bar> \<le> 2 ^ 19" if "j < 100" for j
  proof -
    from sample_terms[OF that inv] obtain d' e' where
      1: "nsub (celsiusToFahrenheit (Fin (real j))) (nadd (nmul (Fin (real j)) (Fin u)) (Fin v)) = Fin d'"
      and 2: "\<bar>d' - ?dB j\<bar> \<le> 1 / 2 ^ 37" "\<bar>d'\<bar> \<le> 4096"
      and 3: "nmul (Fin d') (Fin (real j)) = Fin e'"
      and 4: "\<bar>e' - ?dW j\<bar> \<le> 1 / 2 ^ 29" "\<bar>e'\<bar> \<le> 2 ^ 19"
      by blast
    have gj: "g j = Fin d'" unfolding g_def by (rule 1)
    have dj: "d j = d'" by (simp add: d_def gj)
    have hj: "h j = Fin e'" unfolding h_def dj by (rule 3)
    have ej: "e j = e'" by (simp add: e_def hj)
    show ?thesis unfolding dj ej using gj hj 2 4 by blast
  qed
  have elX: "elem ?X j = Fin (real j)" if "j < 100" for j
    using that by (simp add: elem_def)
  have elY: "elem ?Y j = celsiusToFahrenheit (Fin (real j))" if "j < 100" for j
    using that by (simp add: elem_def)
  have elP: "elem ?P j = nadd (nmul (Fin (real j)) (Fin u)) (Fin v)" if "j < 100" for j
    using that by (simp add: elem_def predict_def)
  have sub: "nsub (elem ?Y j) (elem ?P j) = g j" if "j < 100" for j
    by (simp only: elY[OF that] elP[OF that] g_def)
  have mul: "nmul (nsub (elem ?Y j) (elem ?P j)) (elem ?X j) = h j" if "j < 100" for j
    using tm[OF that] by (simp only: sub[OF that] elX[OF that] h_def)
  have fB: "foldl (\<lambda>c j. nadd c (nsub (elem ?Y j) (elem ?P j))) (Fin 0) [0..<100]
      = foldl (\<lambda>c j. nadd c (g j)) (Fin 0) [0..<100]"
    by (rule foldl_cong) (simp_all only: sub set_upt atLeastLessThan_iff)
  have fW: "foldl (\<lambda>c j. nadd c (nmul (nsub (elem ?Y j) (elem ?P j)) (elem ?X j))) (Fin 0) [0..<100]
      = foldl (\<lambda>c j. nadd c (h j)) (Fin 0) [0..<100]"
    by (rule foldl_cong) (simp_all only: mul set_upt atLeastLessThan_iff)
  have "\<exists>s. foldl (\<lambda>c j. nadd c (g j)) (Fin 0) [0..<100] = Fin s
           \<and> \<bar>s - (\<Sum>j<100. d j)\<bar> \<le> real 100 * (2 ^ 19 / 2 ^ 52)
           \<and> \<bar>s\<bar> \<le> real 100 * (4096 + 1)"
    by (rule fold_upt_error) (use tm in simp_all)
  then obtain sB where sB: "foldl (\<lambda>c j. nadd c (g j)) (Fin 0) [0..<100] = Fin sB"
    and sBe: "\<bar>sB - (\<Sum>j<100. d j)\<bar> \<le> real 100 * (2 ^ 19 / 2 ^ 52)"
    and sBm: "\<bar>sB\<bar> \<le> real 100 * (4096 + 1)" by blast
  have "\<exists>s. foldl (\<lambda>c j. nadd c (h j)) (Fin 0) [0..<100] = Fin s
           \<and> \<bar>s - (\<Sum>j<100. e j)\<bar> \<le> real 100 * (2 ^ 26 / 2 ^ 52)
           \<and> \<bar>s\<bar> \<le> real 100 * (2 ^ 19 + 1)"
    by (rule fold_upt_error) (use tm in simp_all)
  then obtain sW where sW: "foldl (\<lambda>c j. nadd c (h j)) (Fin 0) [0..<100] = Fin sW"
    and sWe: "\<bar>sW - (\<Sum>j<100. e j)\<bar> \<le> real 100 * (2 ^ 26 / 2 ^ 52)"
    and sWm: "\<bar>sW\<bar> \<le> real 100 * (2 ^ 19 + 1)" by blast
  have cB: "\<bar>(\<Sum>j<100. d j) - (\<Sum>j<100. ?dB j)\<bar> \<le> real 100 * (1 / 2 ^ 37)"
    by (rule sum_close) (use tm in simp)
  have cW: "\<bar>(\<Sum>j<100. e j) - (\<Sum>j<100. ?dW j)\<bar> \<le> real 100 * (1 / 2 ^ 29)"
    by (rule sum_close) (use tm in simp)
  have "(\<Sum>j<100. ?dB j) = (18 / 10 - u) * (\<Sum>i<100. real i) + (32 - v) * 100"
    by (simp add: sum.distrib sum_distrib_left)
  also have "(\<Sum>i<100. real i) = 4950"
    using sum_upto_real[of 100] by simp
  finally have xB: "(\<Sum>j<100. ?dB j) = (18 / 10 - u) * 4950 + (32 - v) * 100" .
  have "(\<Sum>j<100. ?dW j) = (18 / 10 - u) * (\<Sum>i<100. (real i)\<^sup>2) + (32 - v) * (\<Sum>i<100. real i)"
    by (simp add: sum.distrib sum_distrib_left)
  also have "(\<Sum>i<100. (real i)\<^sup>2) = 328350"
    using sum_squares_upto_real[of 100] by simp
  also have "(\<Sum>i<100. real i) = 4950"
    using sum_upto_real[of 100] by simp
  finally have xW: "(\<Sum>j<100. ?dW j) = (18 / 10 - u) * 328350 + (32 - v) * 4950" .
  let ?SB = "(18 / 10 - u) * 4950 + (32 - v) * 100"
  let ?SW = "(18 / 10 - u) * 328350 + (32 - v) * 4950"
  have n1: "real 100 * (2 ^ 19 / 2 ^ 52) + real 100 * (1 / 2 ^ 37) \<le> 1 / 2 ^ 25" by simp
  have eB: "\<bar>sB - ?SB\<bar> \<le> 1 / 2 ^ 25" using sBe cB n1 unfolding xB by linarith
  have n2: "real 100 * (2 ^ 26 / 2 ^ 52) + real 100 * (1 / 2 ^ 29) \<le> 1 / 2 ^ 18" by simp
  have eW: "\<bar>sW - ?SW\<bar> \<le> 1 / 2 ^ 18" using sWe cW n2 unfolding xW by linarith
  have n3: "real 100 * (4096 + 1) \<le> 100 * 8192" by simp
  have "\<bar>sB / 100\<bar> \<le> 8192" using sBm n3 by (simp add: abs_le_iff; linarith)
  from ndiv_error[OF this] obtain dB where dB: "ndiv (Fin sB) 100 = Fin dB"
    and dBe: "\<bar>dB - sB / 100\<bar> \<le> 8192 / 2 ^ 52" by auto
  have n4: "real 100 * (2 ^ 19 + 1) \<le> 100 * 2 ^ 20" by simp
  have "\<bar>sW / 100\<bar> \<le> 2 ^ 20" using sWm n4 by (simp add: abs_le_iff; linarith)
  from ndiv_error[OF this] obtain dW where dW: "ndiv (Fin sW) 100 = Fin dW"
    and dWe: "\<bar>dW - sW / 100\<bar> \<le> 2 ^ 20 / 2 ^ 52" by auto
  have q: "\<bar>x / 100 - y / 100\<bar> \<le> c / 100" if "\<bar>x - y\<bar> \<le> c" for x y c :: real
    using that by linarith
  have n5: "8192 / 2 ^ 52 + (1 / 2 ^ 25) / 100 \<le> (1 :: real) / 2 ^ 30" by simp
  have r1: "\<bar>dB - ?SB / 100\<bar> \<le> 1 / 2 ^ 30" using dBe q[OF eB] n5 by linarith
  have n6: "2 ^ 20 / 2 ^ 52 + (1 / 2 ^ 18) / 100 \<le> (1 :: real) / 2 ^ 23" by simp
  have r2: "\<bar>dW - ?SW / 100\<bar> \<le> 1 / 2 ^ 23" using dWe q[OF eW] n6 by linarith
  have n7: "(8192 :: real) / 2 ^ 52 \<le> 1" "(2 :: real) ^ 20 / 2 ^ 52 \<le> 1" by simp_all
  have r3: "\<bar>dB\<bar> \<le> 8192" using dBe sBm n7 by (simp add: abs_le_iff; linarith)
  have r4: "\<bar>dW\<bar> \<le> 2 ^ 20" using dWe sWm n7 by (simp add: abs_le_iff; linarith)
  have "fst (backwardPropagation ?P ?X ?Y) = (Fin dB, Fin dW)"
    unfolding backwardPropagation_eq fst_conv length_map length_upt diff_zero
    by (simp only: fB fW sB sW dB dW of_nat_numeral)
  with r1 r2 r3 r4 show ?thesis by blast
qed

lemma training_epoch_error:
  assumes inv: "(18 / 10 - u)\<^sup>2 + (32 - v)\<^sup>2 \<le> 1000"
    and av: "\<bar>av - 5 / 10000\<bar> \<le> 1 / 2 ^ 52"
  shows "\<exists>u' v'.
      spec_update (Fin av) (map (\<lambda>k. Fin (real k)) [0..<100])
        (map (\<lambda>k. celsiusToFahrenheit (Fin (real k))) [0..<100]) \<lparr>w = Fin u, b = Fin v\<rparr>
        = \<lparr>w = Fin u', b = Fin v'\<rparr>
    \<and> \<bar>u' - (u + ((18 / 10 - u) * 328350 + (32 - v) * 4950) / 100 * (5 / 10000))\<bar> \<le> 1 / 2 ^ 29
    \<and> \<bar>v' - (v + ((18 / 10 - u) * 4950 + (32 - v) * 100) / 100 * (5 / 10000))\<bar> \<le> 1 / 2 ^ 29"
proof -
  let ?X = "map (\<lambda>k. Fin (real k)) [0..<100]"
  let ?Y = "map (\<lambda>k. celsiusToFahrenheit (Fin (real k))) [0..<100]"
  let ?P = "map (\<lambda>j. fst (predict \<lparr>w = Fin u, b = Fin v\<rparr> (elem ?X j))) [0..<100]"
  let ?DB = "((18 / 10 - u) * 4950 + (32 - v) * 100) / 100"
  let ?DW = "((18 / 10 - u) * 328350 + (32 - v) * 4950) / 100"
  from energy_bounds[OF inv] have pu: "\<bar>18 / 10 - u\<bar> \<le> 32" and pv: "\<bar>32 - v\<bar> \<le> 32" .
  have u: "\<bar>u\<bar> \<le> 34" using pu by linarith
  have v: "\<bar>v\<bar> \<le> 64" using pv by linarith
  from training_deltas_error[OF inv] obtain dB dW where
    bp: "fst (backwardPropagation ?P ?X ?Y) = (Fin dB, Fin dW)"
    and dBe: "\<bar>dB - ?DB\<bar> \<le> 1 / 2 ^ 30" and dWe: "\<bar>dW - ?DW\<bar> \<le> 1 / 2 ^ 23"
    and dBm: "\<bar>dB\<bar> \<le> 8192" and dWm: "\<bar>dW\<bar> \<le> 2 ^ 20" by blast
  have n0: "5 / 10000 + 1 / 2 ^ 52 \<le> (1 :: real) / 512" by simp
  have a: "\<bar>av\<bar> \<le> 1 / 512" using av n0 by linarith
  have n1: "(1 :: real) / 2 ^ 30 \<le> 1" "(1 :: real) / 2 ^ 23 \<le> 1" by simp_all
  have DBm: "\<bar>?DB\<bar> \<le> 8192 + 1" using dBe dBm n1 by linarith
  have DWm: "\<bar>?DW\<bar> \<le> 2 ^ 20 + 1" using dWe dWm n1 by linarith
  have "\<bar>dW * av\<bar> \<le> 2 ^ 20 * (1 / 512)" by (rule abs_mult_le[OF dWm a])
  then have mW: "\<bar>dW * av\<bar> \<le> 2048" by simp
  from nmul_error[OF mW] obtain pW where pW: "nmul (Fin dW) (Fin av) = Fin pW"
    and pWe: "\<bar>pW - dW * av\<bar> \<le> 2048 / 2 ^ 52" by auto
  have cW: "\<bar>dW * av - ?DW * (5 / 10000)\<bar> \<le> 1 / 2 ^ 23 * (1 / 512) + (2 ^ 20 + 1) * (1 / 2 ^ 52)"
    by (rule product_close[OF dWe av a DWm])
  have n2: "2048 / 2 ^ 52 + (1 / 2 ^ 23 * (1 / 512) + (2 ^ 20 + 1) * (1 / 2 ^ 52)) \<le> (1 :: real) / 2 ^ 30"
    by simp
  have pW2: "\<bar>pW - ?DW * (5 / 10000)\<bar> \<le> 1 / 2 ^ 30" using pWe cW n2 by linarith
  have n3: "(2048 :: real) / 2 ^ 52 \<le> 1" by simp
  have "\<bar>u + pW\<bar> \<le> 4096" using u pWe mW n3 by linarith
  from nadd_error[OF this] obtain u' where u': "nadd (Fin u) (Fin pW) = Fin u'"
    and u'e: "\<bar>u' - (u + pW)\<bar> \<le> 4096 / 2 ^ 52" by auto
  have n4: "4096 / 2 ^ 52 + 1 / 2 ^ 30 \<le> (1 :: real) / 2 ^ 29" by simp
  have r1: "\<bar>u' - (u + ?DW * (5 / 10000))\<bar> \<le> 1 / 2 ^ 29" using u'e pW2 n4 by linarith
  have "\<bar>dB * av\<bar> \<le> 8192 * (1 / 512)" by (rule abs_mult_le[OF dBm a])
  then have mB: "\<bar>dB * av\<bar> \<le> 16" by simp
  from nmul_error[OF mB] obtain pB where pB: "nmul (Fin dB) (Fin av) = Fin pB"
    and pBe: "\<bar>pB - dB * av\<bar> \<le> 16 / 2 ^ 52" by auto
  have cB: "\<bar>dB * av - ?DB * (5 / 10000)\<bar> \<le> 1 / 2 ^ 30 * (1 / 512) + (8192 + 1) * (1 / 2 ^ 52)"
    by (rule product_close[OF dBe av a DBm])
  have n5: "16 / 2 ^ 52 + (1 / 2 ^ 30 * (1 / 512) + (8192 + 1) * (1 / 2 ^ 52)) \<le> (1 :: real) / 2 ^ 30"
    by simp
  have pB2: "\<bar>pB - ?DB * (5 / 10000)\<bar> \<le> 1 / 2 ^ 30" using pBe cB n5 by linarith
  have n6: "(16 :: real) / 2 ^ 52 \<le> 1" by simp
  have "\<bar>v + pB\<bar> \<le> 4096" using v pBe mB n6 by linarith
  from nadd_error[OF this] obtain v' where v': "nadd (Fin v) (Fin pB) = Fin v'"
    and v'e: "\<bar>v' - (v + pB)\<bar> \<le> 4096 / 2 ^ 52" by auto
  have r2: "\<bar>v' - (v + ?DB * (5 / 10000))\<bar> \<le> 1 / 2 ^ 29" using v'e pB2 n4 by linarith
  have "spec_update (Fin av) ?X ?Y \<lparr>w = Fin u, b = Fin v\<rparr>
      = \<lparr>w = Fin u, b = Fin v\<rparr>
          \<lparr>w := nadd (w \<lparr>w = Fin u, b = Fin v\<rparr>) (nmul (Fin dW) (Fin av)),
           b := nadd (b \<lparr>w = Fin u, b = Fin v\<rparr>) (nmul (Fin dB) (Fin av))\<rparr>"
    by (simp only: spec_update_def forwardPropagation_eq fst_conv Let_def prod.case
          length_map length_upt diff_zero bp)
  also have "\<dots> = \<lparr>w = Fin u', b = Fin v'\<rparr>"
    using pW u' pB v' by simp
  finally show ?thesis using r1 r2 by blast
qed

text \<open>The exact epoch contracts; the rounded one contracts up to a constant.\<close>

lemma error_contracts:
  fixes p q :: real
  shows "(p - 5 / 10000 * (328350 / 100 * p + 4950 / 100 * q))\<^sup>2
       + (q - 5 / 10000 * (4950 / 100 * p + q))\<^sup>2
       \<le> 3999 / 4000 * (p\<^sup>2 + q\<^sup>2)"
proof -
  have "3999 / 4000 * (p\<^sup>2 + q\<^sup>2)
        - ((p - 5 / 10000 * (328350 / 100 * p + 4950 / 100 * q))\<^sup>2
           + (q - 5 / 10000 * (4950 / 100 * p + q))\<^sup>2)
      = 939671 / 1600000 * (p + 141669 / 9396710 * q)\<^sup>2
        + 555672889 / 150347360000000 * q\<^sup>2"
    by (simp add: power2_eq_square algebra_simps)
  moreover have "0 \<le> 939671 / 1600000 * (p + 141669 / 9396710 * q)\<^sup>2
        + 555672889 / 150347360000000 * q\<^sup>2"
    by (intro add_nonneg_nonneg mult_nonneg_nonneg) simp_all
  ultimately show ?thesis by linarith
qed

lemma square_of_near:
  fixes a x r :: real
  assumes "\<bar>x - a\<bar> \<le> r"
  shows "x\<^sup>2 \<le> 100001 / 100000 * a\<^sup>2 + 100001 * r\<^sup>2"
proof -
  have "100001 / 100000 * a\<^sup>2 + 100001 * (x - a)\<^sup>2 - x\<^sup>2 = 1 / 100000 * (a - 100000 * (x - a))\<^sup>2"
    by (simp add: power2_eq_square algebra_simps)
  moreover have "0 \<le> 1 / 100000 * (a - 100000 * (x - a))\<^sup>2" by simp
  ultimately have 1: "x\<^sup>2 \<le> 100001 / 100000 * a\<^sup>2 + 100001 * (x - a)\<^sup>2" by linarith
  have "\<bar>x - a\<bar>\<^sup>2 \<le> r\<^sup>2" by (rule power_mono[OF assms]) simp
  then have "(x - a)\<^sup>2 \<le> r\<^sup>2" by simp
  with 1 show ?thesis by linarith
qed

lemma perturbed_contraction:
  fixes p q p' q' r :: real
  assumes "\<bar>p' - (p - 5 / 10000 * (328350 / 100 * p + 4950 / 100 * q))\<bar> \<le> r"
    and "\<bar>q' - (q - 5 / 10000 * (4950 / 100 * p + q))\<bar> \<le> r"
  shows "p'\<^sup>2 + q'\<^sup>2 \<le> 399903999 / 400000000 * (p\<^sup>2 + q\<^sup>2) + 200002 * r\<^sup>2"
proof -
  let ?a = "p - 5 / 10000 * (328350 / 100 * p + 4950 / 100 * q)"
  let ?c = "q - 5 / 10000 * (4950 / 100 * p + q)"
  note square_of_near[OF assms(1)] square_of_near[OF assms(2)] error_contracts[of p q]
  then show ?thesis by linarith
qed

lemma training_energy:
  assumes E0: "(18 / 10 - u0)\<^sup>2 + (32 - v0)\<^sup>2 \<le> 999"
    and av: "\<bar>av - 5 / 10000\<bar> \<le> 1 / 2 ^ 52"
  shows "\<exists>u v.
      (spec_update (Fin av) (map (\<lambda>k. Fin (real k)) [0..<100])
         (map (\<lambda>k. celsiusToFahrenheit (Fin (real k))) [0..<100]) ^^ n) \<lparr>w = Fin u0, b = Fin v0\<rparr>
        = \<lparr>w = Fin u, b = Fin v\<rparr>
    \<and> (18 / 10 - u)\<^sup>2 + (32 - v)\<^sup>2
        \<le> (399903999 / 400000000) ^ n * ((18 / 10 - u0)\<^sup>2 + (32 - v0)\<^sup>2) + 1 / 1000000"
proof (induction n)
  case 0
  show ?case by simp
next
  case (Suc n)
  let ?f = "spec_update (Fin av) (map (\<lambda>k. Fin (real k)) [0..<100])
         (map (\<lambda>k. celsiusToFahrenheit (Fin (real k))) [0..<100])"
  let ?E0 = "(18 / 10 - u0)\<^sup>2 + (32 - v0)\<^sup>2"
  let ?rho = "399903999 / 400000000 :: real"
  from Suc.IH obtain u v where
    st: "(?f ^^ n) \<lparr>w = Fin u0, b = Fin v0\<rparr> = \<lparr>w = Fin u, b = Fin v\<rparr>"
    and le: "(18 / 10 - u)\<^sup>2 + (32 - v)\<^sup>2 \<le> ?rho ^ n * ?E0 + 1 / 1000000"
    by blast
  have E0pos: "0 \<le> ?E0" by simp
  have "?rho ^ n \<le> 1" by (rule power_le_one) simp_all
  then have "?rho ^ n * ?E0 \<le> 1 * ?E0" by (rule mult_right_mono[OF _ E0pos])
  moreover have "a \<le> 1000" if "a \<le> r + 1 / 1000000" and "e \<le> 999" and "r \<le> 1 * e" for a r e :: real
    using that by linarith
  ultimately have inv: "(18 / 10 - u)\<^sup>2 + (32 - v)\<^sup>2 \<le> 1000" using le E0 by blast
  from training_epoch_error[OF inv av] obtain u' v' where
    ep: "?f \<lparr>w = Fin u, b = Fin v\<rparr> = \<lparr>w = Fin u', b = Fin v'\<rparr>"
    and eu: "\<bar>u' - (u + ((18 / 10 - u) * 328350 + (32 - v) * 4950) / 100 * (5 / 10000))\<bar> \<le> 1 / 2 ^ 29"
    and ev: "\<bar>v' - (v + ((18 / 10 - u) * 4950 + (32 - v) * 100) / 100 * (5 / 10000))\<bar> \<le> 1 / 2 ^ 29"
    by blast
  have next_state: "(?f ^^ Suc n) \<lparr>w = Fin u0, b = Fin v0\<rparr> = \<lparr>w = Fin u', b = Fin v'\<rparr>"
    by (simp only: funpow.simps o_apply st ep)
  have 1: "\<bar>(18 / 10 - u') - ((18 / 10 - u) - 5 / 10000 * (328350 / 100 * (18 / 10 - u) + 4950 / 100 * (32 - v)))\<bar>
      \<le> 1 / 2 ^ 29"
  proof -
    have "(18 / 10 - u') - ((18 / 10 - u) - 5 / 10000 * (328350 / 100 * (18 / 10 - u) + 4950 / 100 * (32 - v)))
        = - (u' - (u + ((18 / 10 - u) * 328350 + (32 - v) * 4950) / 100 * (5 / 10000)))"
      by (simp add: field_simps)
    then show ?thesis using eu by (simp only: abs_minus_cancel)
  qed
  have 2: "\<bar>(32 - v') - ((32 - v) - 5 / 10000 * (4950 / 100 * (18 / 10 - u) + (32 - v)))\<bar>
      \<le> 1 / 2 ^ 29"
  proof -
    have "(32 - v') - ((32 - v) - 5 / 10000 * (4950 / 100 * (18 / 10 - u) + (32 - v)))
        = - (v' - (v + ((18 / 10 - u) * 4950 + (32 - v) * 100) / 100 * (5 / 10000)))"
      by (simp add: field_simps)
    then show ?thesis using ev by (simp only: abs_minus_cancel)
  qed
  note perturbed_contraction[OF 1 2]
  moreover have "?rho * ((18 / 10 - u)\<^sup>2 + (32 - v)\<^sup>2) \<le> ?rho * (?rho ^ n * ?E0 + 1 / 1000000)"
    by (rule mult_left_mono[OF le]) simp
  moreover have "?rho * (?rho ^ n * ?E0 + 1 / 1000000) = ?rho ^ Suc n * ?E0 + ?rho * (1 / 1000000)"
    by (simp add: algebra_simps)
  moreover have "?rho * (1 / 1000000) + 200002 * (1 / 2 ^ 29)\<^sup>2 \<le> 1 / 1000000"
    by (simp add: power2_eq_square)
  ultimately have "(18 / 10 - u')\<^sup>2 + (32 - v')\<^sup>2 \<le> ?rho ^ Suc n * ?E0 + 1 / 1000000"
    by linarith
  with next_state show ?case by blast
qed

text \<open>The model that \<open>trainModel\<close> returns after \<open>n\<close> epochs.\<close>

lemma spec_epoch_update:
  "fst (spec_epoch alpha xTrain yTrain (m, h)) = spec_update alpha xTrain yTrain m"
  by (simp add: spec_epoch_def spec_update_def Let_def split: prod.splits)

lemma spec_epoch_funpow_update:
  "fst ((spec_epoch alpha xTrain yTrain ^^ k) (m, h)) = (spec_update alpha xTrain yTrain ^^ k) m"
proof (induction k)
  case 0
  show ?case by simp
next
  case (Suc k)
  have "fst (spec_epoch alpha xTrain yTrain ((spec_epoch alpha xTrain yTrain ^^ k) (m, h)))
      = spec_update alpha xTrain yTrain (fst ((spec_epoch alpha xTrain yTrain ^^ k) (m, h)))"
    using spec_epoch_update[of alpha xTrain yTrain "fst ((spec_epoch alpha xTrain yTrain ^^ k) (m, h))"
                 "snd ((spec_epoch alpha xTrain yTrain ^^ k) (m, h))"]
    by simp
  with Suc.IH show ?case by simp
qed

lemma trainModel_model:
  "fst (snd (trainModel model (real n) alpha xTrain yTrain)) = (spec_update alpha xTrain yTrain ^^ n) model"
  by (simp add: trainModel_def train_loop_funpow spec_epoch_funpow_update)

lemma training_result:
  assumes E0: "(18 / 10 - u0)\<^sup>2 + (32 - v0)\<^sup>2 \<le> 999"
    and av: "\<bar>av - 5 / 10000\<bar> \<le> 1 / 2 ^ 52"
  shows "\<exists>u v.
      fst (snd (trainModel \<lparr>w = Fin u0, b = Fin v0\<rparr> (real n) (Fin av)
                  (fst generateDataSets) (fst (snd (snd generateDataSets)))))
        = \<lparr>w = Fin u, b = Fin v\<rparr>
    \<and> (18 / 10 - u)\<^sup>2 + (32 - v)\<^sup>2
        \<le> (399903999 / 400000000) ^ n * ((18 / 10 - u0)\<^sup>2 + (32 - v0)\<^sup>2) + 1 / 1000000"
proof -
  have X: "fst generateDataSets = map (\<lambda>k. Fin (real k)) [0..<100]"
    by (simp add: generateDataSets_eq)
  have Y: "fst (snd (snd generateDataSets)) = map (\<lambda>k. celsiusToFahrenheit (Fin (real k))) [0..<100]"
    by (simp add: generateDataSets_eq)
  show ?thesis
    unfolding X Y trainModel_model by (rule training_energy[OF E0 av])
qed

lemma power_reciprocal_bound:
  fixes x y c :: real
  assumes "x = 1 / (1 + y)" and "0 \<le> y" and "1 / (1 + real k * y) \<le> c"
  shows "x ^ k \<le> c"
proof -
  have "1 + real k * y \<le> (1 + y) ^ k"
    using assms(2) by (intro Bernoulli_inequality) simp
  moreover have "0 < 1 + real k * y"
    using assms(2) by (simp add: add_pos_nonneg)
  ultimately have "1 / (1 + y) ^ k \<le> 1 / (1 + real k * y)"
    by (intro divide_left_mono) (simp_all add: assms(2) add_pos_nonneg)
  moreover have "x ^ k = 1 / (1 + y) ^ k"
    by (simp add: assms(1) power_one_over)
  ultimately show ?thesis using assms(3) by linarith
qed

lemma power_in_chunks:
  fixes x c :: real
  assumes "0 \<le> x" and "x ^ k \<le> c"
  shows "x ^ (k * n) \<le> c ^ n"
  unfolding power_mult by (rule power_mono) (use assms in simp_all)

lemma rate_bound: "(399903999 / 400000000 :: real) ^ 70000 \<le> (81 / 100) ^ 70"
proof -
  have chunk: "(399903999 / 400000000 :: real) ^ 1000 \<le> 81 / 100"
    by (rule power_reciprocal_bound[where y = "96001 / 399903999"]) simp_all
  have e: "(70000 :: nat) = 1000 * 70" by simp
  show ?thesis
    by (subst e, rule power_in_chunks[OF _ chunk]) simp
qed

lemma abs_less_of_square_less:
  fixes x c :: real
  assumes "x\<^sup>2 < c\<^sup>2" and "0 \<le> c"
  shows "\<bar>x\<bar> < c"
proof -
  from assms(1) have "\<bar>x\<bar>\<^sup>2 < c\<^sup>2" by simp
  then show ?thesis using assms(2) by (rule power2_less_imp_less)
qed

text \<open>The value of \<open>round64\<close> at a number whose binade and rounded quotient are known.\<close>

lemma round64_value:
  assumes "pow2 e \<le> \<bar>x\<bar>" and "\<bar>x\<bar> < pow2 (e + 1)" and "- 1022 \<le> e" and "e \<le> 1023"
    and "round_half_even (x / pow2 (e - 52)) = n"
    and "\<bar>of_int n * pow2 (e - 52)\<bar> < 2 ^ 1024"
  shows "round64 x = Fin (of_int n * pow2 (e - 52))"
  using assms(5,6) by (simp add: round64_def Let_def binade_eq[OF assms(1-4)])

lemma W_exact: "W = Fin (8106479329266893 / 2 ^ 52)"
proof -
  have "round64 (18 / 10) = Fin (of_int 8106479329266893 * pow2 (0 - 52))"
    by (rule round64_value) (simp_all add: pow2_def round_half_even_def Let_def)
  then show ?thesis by (simp add: W_def pow2_def)
qed

lemma celsiusToFahrenheit_30: "celsiusToFahrenheit (Fin 30) = Fin 86"
proof -
  have "round64 (30 * (8106479329266893 / 2 ^ 52)) = Fin (of_int 7599824371187712 * pow2 (5 - 52))"
    by (rule round64_value) (simp_all add: pow2_def round_half_even_def Let_def)
  then have "nmul (Fin 30) W = Fin 54" by (simp add: W_exact pow2_def)
  then show ?thesis by (simp add: celsiusToFahrenheit_def B_def)
qed

text \<open>
  Claim C5. Training for 70000 epochs with \<open>alpha = 0.0005\<close> from \<open>w = 0.9492\<close>,
  \<open>b = 0.4570\<close> (the literals denote the nearest doubles) on the generated training set
  ends with a finite model with \<open>|w - 1.8| < 0.05\<close> and \<open>|b - 32| < 1.0\<close>; the trained
  model's prediction for 30 is within 1.0 of \<open>celsiusToFahrenheit(30)\<close>, which is exactly
  86. All of it is the program's double arithmetic: the squared error \<open>(1.8 - w)\<^sup>2 +
  (32 - b)\<^sup>2\<close> starts below 999, is multiplied by at most 399903999/400000000 in each
  epoch up to an additive \<open>200002 / 2\<^sup>5\<^sup>8\<close>, and is below 1/2000 after 70000 epochs.
\<close>

theorem training_converges:
  "\<exists>wf bf p.
     fst (snd (trainModel \<lparr>w = round64 (9492 / 10000), b = round64 (4570 / 10000)\<rparr> 70000
                 (round64 (5 / 10000)) (fst generateDataSets) (fst (snd (snd generateDataSets)))))
       = \<lparr>w = Fin wf, b = Fin bf\<rparr>
   \<and> \<bar>wf - 18 / 10\<bar> < 5 / 100 \<and> \<bar>bf - 32\<bar> < 1
   \<and> fst (predict \<lparr>w = Fin wf, b = Fin bf\<rparr> (Fin 30)) = Fin p
   \<and> celsiusToFahrenheit (Fin 30) = Fin 86
   \<and> \<bar>p - 86\<bar> < 1"
proof -
  from round64_error[of "9492 / 10000" 1] obtain u0 where
    u0: "round64 (9492 / 10000) = Fin u0" and u0e: "\<bar>u0 - 9492 / 10000\<bar> \<le> 1 / 2 ^ 52" by auto
  from round64_error[of "4570 / 10000" 1] obtain v0 where
    v0: "round64 (4570 / 10000) = Fin v0" and v0e: "\<bar>v0 - 4570 / 10000\<bar> \<le> 1 / 2 ^ 52" by auto
  from round64_error[of "5 / 10000" 1] obtain av where
    av: "round64 (5 / 10000) = Fin av" and ave: "\<bar>av - 5 / 10000\<bar> \<le> 1 / 2 ^ 52" by auto
  let ?E0 = "(18 / 10 - u0)\<^sup>2 + (32 - v0)\<^sup>2"
  have n0: "(1 :: real) / 2 ^ 52 \<le> 1 / 1000" by simp
  have "\<bar>18 / 10 - u0\<bar> \<le> 1" using u0e n0 by linarith
  then have "\<bar>18 / 10 - u0\<bar>\<^sup>2 \<le> 1\<^sup>2" by (rule power_mono) simp
  then have s1: "(18 / 10 - u0)\<^sup>2 \<le> 1" by simp
  have "\<bar>32 - v0\<bar> \<le> 3155 / 100" using v0e n0 by linarith
  then have "\<bar>32 - v0\<bar>\<^sup>2 \<le> (3155 / 100)\<^sup>2" by (rule power_mono) simp
  then have s2: "(32 - v0)\<^sup>2 \<le> 998" by (simp add: power2_eq_square)
  have E0: "?E0 \<le> 999" using s1 s2 by linarith
  from training_result[OF E0 ave, of 70000] obtain u v where
    fin: "fst (snd (trainModel \<lparr>w = Fin u0, b = Fin v0\<rparr> (real 70000) (Fin av)
                 (fst generateDataSets) (fst (snd (snd generateDataSets)))))
          = \<lparr>w = Fin u, b = Fin v\<rparr>"
    and le: "(18 / 10 - u)\<^sup>2 + (32 - v)\<^sup>2 \<le> (399903999 / 400000000) ^ 70000 * ?E0 + 1 / 1000000"
    by blast
  have "(399903999 / 400000000) ^ 70000 * ?E0 \<le> (81 / 100) ^ 70 * ?E0"
    by (rule mult_right_mono[OF rate_bound]) simp
  also have "\<dots> \<le> (81 / 100) ^ 70 * 999"
    by (rule mult_left_mono[OF E0]) simp
  finally have "(18 / 10 - u)\<^sup>2 + (32 - v)\<^sup>2 \<le> (81 / 100) ^ 70 * 999 + 1 / 1000000"
    using le by linarith
  also have "(81 / 100) ^ 70 * 999 + 1 / 1000000 < (1 / 2000 :: real)"
    by (simp add: power_divide)
  finally have small: "(18 / 10 - u)\<^sup>2 + (32 - v)\<^sup>2 < 1 / 2000" .
  have sq: "0 \<le> (18 / 10 - u)\<^sup>2" "0 \<le> (32 - v)\<^sup>2" by simp_all
  have c1: "(5 / 100 :: real)\<^sup>2 = 25 / 10000" and c2: "(1 / 10 :: real)\<^sup>2 = 1 / 100"
    and c3: "(7 / 10 :: real)\<^sup>2 = 49 / 100"
    by (simp_all add: power2_eq_square)
  have "(u - 18 / 10)\<^sup>2 = (18 / 10 - u)\<^sup>2" by (simp add: power2_commute)
  with small sq have "(u - 18 / 10)\<^sup>2 < 25 / 10000" by linarith
  then have "(u - 18 / 10)\<^sup>2 < (5 / 100)\<^sup>2" by (simp only: c1)
  then have g2: "\<bar>u - 18 / 10\<bar> < 5 / 100"
    by (rule abs_less_of_square_less) simp
  have "(v - 32)\<^sup>2 = (32 - v)\<^sup>2" by (simp add: power2_commute)
  with small sq have "(v - 32)\<^sup>2 < 1 / 100" by linarith
  then have "(v - 32)\<^sup>2 < (1 / 10)\<^sup>2" by (simp only: c2)
  then have bb: "\<bar>v - 32\<bar> < 1 / 10"
    by (rule abs_less_of_square_less) simp
  then have g3: "\<bar>v - 32\<bar> < 1" by linarith
  have "901 * ((18 / 10 - u)\<^sup>2 + (32 - v)\<^sup>2) - (30 * u + v - 86)\<^sup>2
        = ((18 / 10 - u) - 30 * (32 - v))\<^sup>2"
    by (simp add: power2_eq_square algebra_simps)
  moreover have "0 \<le> ((18 / 10 - u) - 30 * (32 - v))\<^sup>2" by simp
  ultimately have cs: "(30 * u + v - 86)\<^sup>2 \<le> 901 * ((18 / 10 - u)\<^sup>2 + (32 - v)\<^sup>2)"
    by linarith
  have scale: "P < 49 / 100" if "E < 1 / 2000" and "P \<le> 901 * E" for E P :: real
    using that by linarith
  have "(30 * u + v - 86)\<^sup>2 < 49 / 100" by (rule scale[OF small cs])
  then have "(30 * u + v - 86)\<^sup>2 < (7 / 10)\<^sup>2" by (simp only: c3)
  then have pb: "\<bar>30 * u + v - 86\<bar> < 7 / 10"
    by (rule abs_less_of_square_less) simp
  have "\<bar>30 * u\<bar> \<le> 64" using g2 by linarith
  from nmul_error[OF this] obtain m where m: "nmul (Fin 30) (Fin u) = Fin m"
    and me: "\<bar>m - 30 * u\<bar> \<le> 64 / 2 ^ 52" by auto
  have n1: "(64 :: real) / 2 ^ 52 \<le> 1 / 100" "(128 :: real) / 2 ^ 52 \<le> 1 / 100" by simp_all
  have "\<bar>m + v\<bar> \<le> 128" using me n1 g2 bb by linarith
  from nadd_error[OF this] obtain p where p: "nadd (Fin m) (Fin v) = Fin p"
    and pe: "\<bar>p - (m + v)\<bar> \<le> 128 / 2 ^ 52" by auto
  have pr: "fst (predict \<lparr>w = Fin u, b = Fin v\<rparr> (Fin 30)) = Fin p"
    using m p by (simp add: predict_def)
  have g4: "\<bar>p - 86\<bar> < 1" using pe me n1 pb by linarith
  have g1: "fst (snd (trainModel \<lparr>w = round64 (9492 / 10000), b = round64 (4570 / 10000)\<rparr> 70000
                 (round64 (5 / 10000)) (fst generateDataSets) (fst (snd (snd generateDataSets)))))
          = \<lparr>w = Fin u, b = Fin v\<rparr>"
    using fin unfolding u0 v0 av by simp
  show ?thesis
    by (rule exI[of _ u], rule exI[of _ v], rule exI[of _ p])
       (intro conjI g1 g2 g3 pr celsiusToFahrenheit_30 g4)
qed

end
